theory Spec2Isabelle
  imports Complex_Main "HOL-Library.Sublist"
begin

section \<open>The order-fetch pipeline of \<^verbatim>\<open>API VTEX/Projeto Final/api.py\<close>\<close>

text \<open>
  The theory embeds \<^verbatim>\<open>fetch_order_details\<close> and \<^verbatim>\<open>FetchOrdersThread.run\<close>.
  Both talk to a remote server, sleep and emit Qt signals; the embedding makes these
  effects explicit:
  \<^item> the server is a function from the number of requests made so far and the
    request to the outcome of \<^verbatim>\<open>requests.get\<close>, so the same request may be answered
    differently over time (a 429 followed by a success);
  \<^item> the percentage of line 145 is computed in binary floating point, so its value
    is a parameter of the run and not a formula of the theory;
  \<^item> the local variables of \<^verbatim>\<open>run\<close> are the fields of a record that every
    function takes and returns;
  \<^item> every request, every \<^verbatim>\<open>time.sleep\<close> and every emitted signal is appended to
    a trace, in program order;
  \<^item> an exception is a value: the functions that can raise return
    \<open>exn + 'a\<close> together with the state reached when the exception left them;
  \<^item> \<^verbatim>\<open>while True\<close> may run forever (a server that keeps answering full pages), so
    the pagination loop takes the number of iterations it may make and returns
    \<open>None\<close> when that does not suffice.

  What is not modelled: the text written by \<^verbatim>\<open>print\<close>; the URL, the headers and the
  other parameters of a listing request, which are the same in every listing request
  of a run; bodies that are not JSON documents; and the rounding of the shipping
  figures, which are exact rationals here where Python divides and multiplies doubles. An exception of \<^verbatim>\<open>requests.get\<close>
  or of \<^verbatim>\<open>raise_for_status\<close> is always a \<^verbatim>\<open>RequestException\<close>; the other exceptions
  are values of the type \<open>exn\<close>.
\<close>

subsection \<open>JSON values and the Python operations applied to them\<close>

text \<open>
  What \<^verbatim>\<open>response.json()\<close> returns. A number is an \<^verbatim>\<open>int\<close> or a \<^verbatim>\<open>float\<close>, equal
  when their values are; a \<open>JObj\<close> holds the items of a dict in insertion order, and a
  key is read at its first occurrence.
\<close>

datatype json =
    JNull
  | JBool bool
  | JNum rat
  | JStr string
  | JArr "json list"
  | JObj "(string \<times> json) list"

datatype exn = TypeError | AttributeError | KeyError

definition bind :: "exn + 'a \<Rightarrow> ('a \<Rightarrow> exn + 'b) \<Rightarrow> exn + 'b" where
  "bind m f = (case m of Inl e \<Rightarrow> Inl e | Inr x \<Rightarrow> f x)"

text \<open>\<^verbatim>\<open>d.get(k, default)\<close>: only a dict has the method.\<close>

fun py_get :: "json \<Rightarrow> string \<Rightarrow> json \<Rightarrow> exn + json" where
  "py_get (JObj kvs) k d = (case map_of kvs k of None \<Rightarrow> Inr d | Some v \<Rightarrow> Inr v)"
| "py_get _ k d = Inl AttributeError"

text \<open>\<^verbatim>\<open>'k' in x\<close>: a key of a dict, an element of a list, a substring of a string.\<close>

fun py_contains :: "string \<Rightarrow> json \<Rightarrow> exn + bool" where
  "py_contains k (JObj kvs) = Inr (map_of kvs k \<noteq> None)"
| "py_contains k (JArr xs) = Inr (JStr k \<in> set xs)"
| "py_contains k (JStr s) = Inr (sublist k s)"
| "py_contains k _ = Inl TypeError"

text \<open>\<^verbatim>\<open>x['k']\<close> with a string subscript.\<close>

fun py_getitem :: "json \<Rightarrow> string \<Rightarrow> exn + json" where
  "py_getitem (JObj kvs) k = (case map_of kvs k of None \<Rightarrow> Inl KeyError | Some v \<Rightarrow> Inr v)"
| "py_getitem _ k = Inl TypeError"

text \<open>
  \<^verbatim>\<open>d['k'] = v\<close> on a dict: the value of an existing key is replaced where it stands,
  a new key goes to the end.
\<close>

fun update_key :: "string \<Rightarrow> json \<Rightarrow> (string \<times> json) list \<Rightarrow> (string \<times> json) list" where
  "update_key k v [] = [(k, v)]"
| "update_key k v (p # ps) = (if fst p = k then (k, v) # ps else p # update_key k v ps)"

fun py_setitem :: "json \<Rightarrow> string \<Rightarrow> json \<Rightarrow> json" where
  "py_setitem (JObj kvs) k v = JObj (update_key k v kvs)"
| "py_setitem j k v = j"

text \<open>\<^verbatim>\<open>for x in v\<close>: the elements of a list, the keys of a dict, the characters of a string.\<close>

fun py_iter :: "json \<Rightarrow> exn + json list" where
  "py_iter (JArr xs) = Inr xs"
| "py_iter (JObj kvs) = Inr (map (\<lambda>p. JStr (fst p)) kvs)"
| "py_iter (JStr s) = Inr (map (\<lambda>c. JStr [c]) s)"
| "py_iter _ = Inl TypeError"

text \<open>A value used as a number: \<^verbatim>\<open>bool\<close> is a subclass of \<^verbatim>\<open>int\<close>.\<close>

fun py_number :: "json \<Rightarrow> exn + rat" where
  "py_number (JNum r) = Inr r"
| "py_number (JBool b) = Inr (if b then 1 else 0)"
| "py_number _ = Inl TypeError"

definition py_div100 :: "json \<Rightarrow> exn + rat" where
  "py_div100 v = bind (py_number v) (\<lambda>r. Inr (r / 100))"

text \<open>
  The member of a \<^verbatim>\<open>set\<close> that a value is looked up as: lists and dicts are not
  hashable, and \<^verbatim>\<open>True == 1\<close>, \<^verbatim>\<open>False == 0\<close> with equal hashes.
\<close>

fun hash_key :: "json \<Rightarrow> exn + json" where
  "hash_key (JArr xs) = Inl TypeError"
| "hash_key (JObj kvs) = Inl TypeError"
| "hash_key (JBool b) = Inr (JNum (if b then 1 else 0))"
| "hash_key v = Inr v"

subsection \<open>The server, the trace and the state of a run\<close>

datatype request =
    Listing string nat
  | Detail json

datatype outcome =
    Raises
  | Response nat json

text \<open>
  What the run depends on and the theory does not compute. \<open>server w n r\<close> is the
  outcome of the request \<open>r\<close> when \<open>n\<close> requests were made before it.
  \<open>percent w n t\<close> is the value of \<^verbatim>\<open>int((n / t) * 100)\<close> (line 145) in binary
  double-precision arithmetic, for \<^verbatim>\<open>orders_fetched\<close> \<open>n\<close> and a positive
  \<^verbatim>\<open>total_expected\<close> \<open>t\<close>: it is not the floor of the exact quotient on every input
  (for 29 of 50 the doubles give 57), so it is a parameter.
\<close>

record world =
  server :: "nat \<Rightarrow> request \<Rightarrow> outcome"
  percent :: "nat \<Rightarrow> rat \<Rightarrow> int"

datatype event =
    Request request
  | Sleep nat
  | Progress int
  | Finished "json list"
  | Error

record state =
  orders :: "json list"
  order_ids :: "json set"
  total_expected :: rat
  orders_fetched :: nat
  response :: "(nat \<times> json) option"
  clock :: nat
  trace :: "event list"

definition initial :: state where
  "initial = \<lparr>orders = [], order_ids = {}, total_expected = 0, orders_fetched = 0,
     response = None, clock = 0, trace = []\<rparr>"

definition record_event :: "event \<Rightarrow> state \<Rightarrow> state" where
  "record_event e st = st\<lparr>trace := trace st @ [e]\<rparr>"

definition http_get :: "world \<Rightarrow> request \<Rightarrow> state \<Rightarrow> outcome \<times> state" where
  "http_get w r st = (server w (clock st) r, record_event (Request r) (st\<lparr>clock := Suc (clock st)\<rparr>))"

definition sleep :: "nat \<Rightarrow> state \<Rightarrow> state" where
  "sleep n st = record_event (Sleep n) st"

text \<open>\<^verbatim>\<open>response.raise_for_status()\<close> raises for the codes 400 to 599.\<close>

definition raise_for_status :: "nat \<Rightarrow> bool" where
  "raise_for_status code \<longleftrightarrow> 400 \<le> code \<and> code < 600"

definition max_retries :: nat where
  "max_retries = 3"

definition per_page :: nat where
  "per_page = 100"

subsection \<open>\<^verbatim>\<open>fetch_order_details\<close>\<close>

text \<open>Lines 26 to 31: the first entry of \<^verbatim>\<open>totals\<close> whose id is \<^verbatim>\<open>'Shipping'\<close>.\<close>

fun totals_loop :: "json list \<Rightarrow> exn + rat" where
  "totals_loop [] = Inr 0"
| "totals_loop (entry # rest) =
     (case py_get entry ''id'' JNull of
        Inl e \<Rightarrow> Inl e
      | Inr i \<Rightarrow>
          if i = JStr ''Shipping'' then bind (py_get entry ''value'' (JNum 0)) py_div100
          else totals_loop rest)"

text \<open>Lines 35 to 40: the first logistics entry with a \<^verbatim>\<open>listPrice\<close>, else the shipping value.\<close>

fun logistics_loop :: "json list \<Rightarrow> rat \<Rightarrow> exn + rat" where
  "logistics_loop [] shipping_value = Inr shipping_value"
| "logistics_loop (item # rest) shipping_value =
     (case py_contains ''listPrice'' item of
        Inl e \<Rightarrow> Inl e
      | Inr found \<Rightarrow>
          if found then bind (py_getitem item ''listPrice'') py_div100
          else logistics_loop rest shipping_value)"

text \<open>Lines 21 to 42: the two figures read from a decoded body.\<close>

definition shipping_of :: "json \<Rightarrow> exn + rat \<times> rat" where
  "shipping_of data =
     bind (py_get data ''shippingValue'' JNull) (\<lambda>raw.
     bind (if raw \<noteq> JNull then py_div100 raw
           else bind (bind (py_get data ''totals'' (JArr [])) py_iter) totals_loop)
       (\<lambda>shipping_value.
     bind (bind (bind (py_get data ''shippingData'' (JObj []))
                  (\<lambda>sd. py_get sd ''logisticsInfo'' (JArr []))) py_iter)
       (\<lambda>logistics_info.
     bind (logistics_loop logistics_info shipping_value)
       (\<lambda>shipping_list_price. Inr (shipping_value, shipping_list_price)))))"

text \<open>
  Lines 12 to 49. The list is what is left of \<^verbatim>\<open>range(max_retries)\<close>. An exception
  that is not a \<^verbatim>\<open>RequestException\<close> leaves the function.
\<close>

fun details_loop :: "world \<Rightarrow> json \<Rightarrow> nat list \<Rightarrow> state \<Rightarrow> (exn + rat \<times> rat) \<times> state" where
  "details_loop w order_id [] st = (Inr (0, 0), st)"
| "details_loop w order_id (attempt # rest) st =
     (case http_get w (Detail order_id) st of
        (Raises, st1) \<Rightarrow>
          if attempt = max_retries - 1 then (Inr (0, 0), st1)
          else details_loop w order_id rest (sleep (2 ^ attempt) st1)
      | (Response code data, st1) \<Rightarrow>
          if code = 429 then details_loop w order_id rest (sleep (2 ^ attempt) st1)
          else if raise_for_status code then
            (if attempt = max_retries - 1 then (Inr (0, 0), st1)
             else details_loop w order_id rest (sleep (2 ^ attempt) st1))
          else (shipping_of data, st1))"

definition fetch_order_details :: "world \<Rightarrow> json \<Rightarrow> state \<Rightarrow> (exn + rat \<times> rat) \<times> state" where
  "fetch_order_details w order_id st = details_loop w order_id [0..<max_retries] st"

subsection \<open>\<^verbatim>\<open>FetchOrdersThread.run\<close>\<close>

text \<open>
  Lines 105 to 120, the attempts at one page. \<^verbatim>\<open>response\<close> is assigned only when
  \<^verbatim>\<open>requests.get\<close> returns; otherwise it keeps what it held before.
\<close>

fun request_loop :: "world \<Rightarrow> string \<Rightarrow> nat \<Rightarrow> nat list \<Rightarrow> state \<Rightarrow> state" where
  "request_loop w status page [] st = st"
| "request_loop w status page (attempt # rest) st =
     (case http_get w (Listing status page) st of
        (Raises, st1) \<Rightarrow>
          if attempt = max_retries - 1 then st1
          else request_loop w status page rest (sleep (2 ^ attempt) st1)
      | (Response code data, st1) \<Rightarrow>
          let st2 = st1\<lparr>response := Some (code, data)\<rparr> in
          if code = 429 then request_loop w status page rest (sleep (2 ^ attempt) st2)
          else if raise_for_status code then
            (if attempt = max_retries - 1 then st2
             else request_loop w status page rest (sleep (2 ^ attempt) st2))
          else st2)"

text \<open>Lines 144 to 146, with the percentage the doubles give.\<close>

definition emit_progress :: "world \<Rightarrow> state \<Rightarrow> state" where
  "emit_progress w st =
     (if total_expected st > 0 then
        record_event (Progress (min 100 (percent w (orders_fetched st) (total_expected st)))) st
      else st)"

text \<open>Lines 139 and 140: the two figures are stored on the record, multiplied by 100.\<close>

definition enrich :: "json \<Rightarrow> rat \<Rightarrow> rat \<Rightarrow> json" where
  "enrich order shipping_value shipping_list_price =
     py_setitem (py_setitem order ''shippingValue'' (JNum (shipping_value * 100)))
       ''shippingListPrice'' (JNum (shipping_list_price * 100))"

text \<open>Lines 139 to 146, for an order that passed both checks; \<open>k\<close> is its member of the seen-id set.\<close>

definition add_order :: "world \<Rightarrow> json \<Rightarrow> json \<Rightarrow> rat \<Rightarrow> rat \<Rightarrow> state \<Rightarrow> state" where
  "add_order w order k shipping_value shipping_list_price st =
     emit_progress w (st\<lparr>orders := orders st @ [enrich order shipping_value shipping_list_price],
                            order_ids := insert k (order_ids st),
                            orders_fetched := orders_fetched st + 1\<rparr>)"

text \<open>Lines 133 to 146, one iteration of the loop over the records of a page.\<close>

definition process_order :: "world \<Rightarrow> string list \<Rightarrow> json \<Rightarrow> state \<Rightarrow> (exn + unit) \<times> state" where
  "process_order w statuses order st =
     (case py_get order ''status'' (JStr ''unknown'') of
        Inl e \<Rightarrow> (Inl e, st)
      | Inr order_status \<Rightarrow>
     (case py_get order ''orderId'' JNull of
        Inl e \<Rightarrow> (Inl e, st)
      | Inr order_id \<Rightarrow>
          if order_status \<notin> set (map JStr statuses) then (Inr (), st)
          else
     (case hash_key order_id of
        Inl e \<Rightarrow> (Inl e, st)
      | Inr k \<Rightarrow>
          if k \<in> order_ids st then (Inr (), st)
          else
     (case fetch_order_details w order_id st of
        (Inl e, st1) \<Rightarrow> (Inl e, st1)
      | (Inr (shipping_value, shipping_list_price), st1) \<Rightarrow>
          (Inr (), add_order w order k shipping_value shipping_list_price st1)))))"

fun orders_loop :: "world \<Rightarrow> string list \<Rightarrow> json list \<Rightarrow> state \<Rightarrow> (exn + unit) \<times> state" where
  "orders_loop w statuses [] st = (Inr (), st)"
| "orders_loop w statuses (order # rest) st =
     (case process_order w statuses order st of
        (Inl e, st1) \<Rightarrow> (Inl e, st1)
      | (Inr u, st1) \<Rightarrow> orders_loop w statuses rest st1)"

definition add_total :: "rat \<Rightarrow> state \<Rightarrow> state" where
  "add_total t st = st\<lparr>total_expected := total_expected st + t\<rparr>"

text \<open>
  Lines 125 to 149, from the decoded body to the test that ends the pagination.
  \<open>Inr True\<close> goes on to the next page, \<open>Inr False\<close> is a \<^verbatim>\<open>break\<close>.
\<close>

definition page_body :: "world \<Rightarrow> string list \<Rightarrow> json \<Rightarrow> state \<Rightarrow> (exn + bool) \<times> state" where
  "page_body w statuses data st =
     (case py_contains ''paging'' data of
        Inl e \<Rightarrow> (Inl e, st)
      | Inr has_paging \<Rightarrow>
          if \<not> has_paging then (Inr False, st)
          else
     (case py_contains ''list'' data of
        Inl e \<Rightarrow> (Inl e, st)
      | Inr has_list \<Rightarrow>
          if \<not> has_list then (Inr False, st)
          else
     (case bind (bind (py_getitem data ''paging'') (\<lambda>p. py_get p ''total'' (JNum 0))) py_number of
        Inl e \<Rightarrow> (Inl e, st)
      | Inr reported \<Rightarrow>
     (case bind (py_getitem data ''list'') py_iter of
        Inl e \<Rightarrow> (Inl e, add_total reported st)
      | Inr page_orders \<Rightarrow>
     (case orders_loop w statuses page_orders (add_total reported st) of
        (Inl e, st1) \<Rightarrow> (Inl e, st1)
      | (Inr u, st1) \<Rightarrow>
          (Inr (\<not> (page_orders = [] \<or> length page_orders < per_page)), st1))))))"

text \<open>
  Lines 104 to 154 for one status: the \<^verbatim>\<open>while True\<close> loop inside the \<^verbatim>\<open>try\<close>. A
  \<^verbatim>\<open>break\<close> and an exception both end it with the state reached, and the run goes on
  with the next status. Reading \<^verbatim>\<open>response.status_code\<close> before any request has
  returned raises \<^verbatim>\<open>UnboundLocalError\<close>, which ends the loop as well.
\<close>

fun paginate :: "nat \<Rightarrow> world \<Rightarrow> string list \<Rightarrow> string \<Rightarrow> nat \<Rightarrow> state \<Rightarrow> state option" where
  "paginate 0 w statuses status page st = None"
| "paginate (Suc fuel) w statuses status page st =
     (let st1 = request_loop w status page [0..<max_retries] st in
      case response st1 of
        None \<Rightarrow> Some st1
      | Some (code, data) \<Rightarrow>
          if code \<noteq> 200 then Some st1
          else
            (case page_body w statuses data st1 of
               (Inl e, st2) \<Rightarrow> Some st2
             | (Inr False, st2) \<Rightarrow> Some st2
             | (Inr True, st2) \<Rightarrow> paginate fuel w statuses status (Suc page) st2))"

fun for_statuses :: "nat \<Rightarrow> world \<Rightarrow> string list \<Rightarrow> string list \<Rightarrow> state \<Rightarrow> state option" where
  "for_statuses fuel w statuses [] st = Some st"
| "for_statuses fuel w statuses (status # rest) st =
     (case paginate fuel w statuses status 1 st of
        None \<Rightarrow> None
      | Some st1 \<Rightarrow> for_statuses fuel w statuses rest st1)"

definition status_map :: "string \<Rightarrow> string list option" where
  "status_map status_filter =
     (if status_filter = ''Faturado'' then Some [''invoiced'']
      else if status_filter = ''Pronto para Manuseio'' then Some [''ready-for-handling'']
      else if status_filter = ''Todos'' then Some [''invoiced'', ''ready-for-handling'']
      else None)"

text \<open>
  \<^verbatim>\<open>run\<close>, given what \<^verbatim>\<open>load_config\<close> returned. An empty configuration emits the
  error signal; a status filter that is no key of \<^verbatim>\<open>status_map\<close> raises
  \<^verbatim>\<open>KeyError\<close> out of \<^verbatim>\<open>run\<close>; otherwise the collected orders are emitted.
\<close>

definition run :: "nat \<Rightarrow> world \<Rightarrow> (string \<times> string) list \<Rightarrow> string \<Rightarrow> (exn + state) option" where
  "run fuel w config status_filter =
     (if config = [] then Some (Inr (record_event Error initial))
      else if map_of config ''vtex_account'' = None \<or> map_of config ''app_key'' = None \<or>
          map_of config ''app_token'' = None
        then Some (Inl KeyError)
      else
        (case status_map status_filter of
           None \<Rightarrow> Some (Inl KeyError)
         | Some statuses \<Rightarrow>
             (case for_statuses fuel w statuses statuses initial of
                None \<Rightarrow> None
              | Some st \<Rightarrow> Some (Inr (record_event (Finished (orders st)) st)))))"

subsection \<open>The date filter\<close>

text \<open>
  Lines 74 to 79. A date is the number of its day since 1970-01-01 and an instant is a
  number of seconds since that day's start in UTC. \<^verbatim>\<open>datetime.combine\<close> attaches the zone
  object to 00:00:00 of the first day and to 23:59:59.999999 of the last;
  \<^verbatim>\<open>astimezone(pytz.UTC)\<close> subtracts the offset that the zone object answers for the
  datetime it is attached to, here the parameter \<open>utcoffset\<close>, in seconds;
  \<^verbatim>\<open>strftime\<close> prints the whole seconds, followed by the literal \<^verbatim>\<open>.000Z\<close> or
  \<^verbatim>\<open>.999Z\<close>. Each bound is the instant printed and the milliseconds after it.
\<close>

definition date_filter :: "int \<Rightarrow> int \<Rightarrow> int \<Rightarrow> (int \<times> nat) \<times> (int \<times> nat)" where
  "date_filter utcoffset start_date end_date =
     (let start_dt = start_date * 86400;
          end_dt = end_date * 86400 + 86399
      in ((start_dt - utcoffset, 0), (end_dt - utcoffset, 999)))"

subsection \<open>What the claims are stated with\<close>

text \<open>
  An order is admitted in a state when it passes the two checks of lines 135 and 137:
  its status is one of the statuses of the run and the member of the seen-id set that
  its \<^verbatim>\<open>orderId\<close> is looked up as is not in the set.
\<close>

definition admitted :: "string list \<Rightarrow> json \<Rightarrow> json \<Rightarrow> json \<Rightarrow> state \<Rightarrow> bool" where
  "admitted statuses order order_id k st \<longleftrightarrow>
     (\<exists>s \<in> set statuses. py_get order ''status'' (JStr ''unknown'') = Inr (JStr s)) \<and>
     py_get order ''orderId'' JNull = Inr order_id \<and>
     hash_key order_id = Inr k \<and> k \<notin> order_ids st"

text \<open>
  A property of the state is preserved when each effect of the pipeline keeps it: a
  request, a sleep, an assignment to \<^verbatim>\<open>response\<close>, an addition to
  \<^verbatim>\<open>total_expected\<close>, and the addition of an admitted order with the figures its
  lookup returned, the property holding before and after the lookup.
\<close>

definition preserved :: "world \<Rightarrow> string list \<Rightarrow> (state \<Rightarrow> bool) \<Rightarrow> bool" where
  "preserved w statuses I \<longleftrightarrow>
     (\<forall>r st. I st \<longrightarrow> I (snd (http_get w r st))) \<and>
     (\<forall>n st. I st \<longrightarrow> I (sleep n st)) \<and>
     (\<forall>x st. I st \<longrightarrow> I (st\<lparr>response := x\<rparr>)) \<and>
     (\<forall>t st. I st \<longrightarrow> I (add_total t st)) \<and>
     (\<forall>order order_id k sv slp st0 st. I st0 \<longrightarrow> I st \<longrightarrow>
        admitted statuses order order_id k st \<longrightarrow>
        fetch_order_details w order_id st0 = (Inr (sv, slp), st) \<longrightarrow>
        I (add_order w order k sv slp st))"

text \<open>The member of the seen-id set that an order is looked up as (lines 134 and 137).\<close>

definition order_key :: "json \<Rightarrow> exn + json" where
  "order_key order = bind (py_get order ''orderId'' JNull) hash_key"

text \<open>A record with no \<^verbatim>\<open>orderId\<close> field.\<close>

fun lacks_order_id :: "json \<Rightarrow> bool" where
  "lacks_order_id (JObj kvs) = (map_of kvs ''orderId'' = None)"
| "lacks_order_id _ = False"

text \<open>A body with no \<^verbatim>\<open>paging\<close> field or no \<^verbatim>\<open>list\<close> field; a body that is no object has no field.\<close>

fun lacks_paging_or_list :: "json \<Rightarrow> bool" where
  "lacks_paging_or_list (JObj kvs) = (map_of kvs ''paging'' = None \<or> map_of kvs ''list'' = None)"
| "lacks_paging_or_list _ = True"

text \<open>
  An outcome that \<^verbatim>\<open>fetch_order_details\<close> answers with another attempt: an exception of
  \<^verbatim>\<open>requests.get\<close>, a 429, or a code for which \<^verbatim>\<open>raise_for_status\<close> raises.
\<close>

fun retried :: "outcome \<Rightarrow> bool" where
  "retried Raises = True"
| "retried (Response code data) = (code = 429 \<or> raise_for_status code)"

text \<open>The number stored under a key of a record.\<close>

definition field_num :: "json \<Rightarrow> string \<Rightarrow> rat option" where
  "field_num order k = (case py_getitem order k of Inr (JNum r) \<Rightarrow> Some r | _ \<Rightarrow> None)"

text \<open>
  A body of the order-detail endpoint in which no entry of
  \<^verbatim>\<open>shippingData.logisticsInfo\<close> has a \<^verbatim>\<open>listPrice\<close>.
\<close>

definition no_list_price :: "json \<Rightarrow> bool" where
  "no_list_price data =
     (case bind (bind (py_get data ''shippingData'' (JObj []))
                  (\<lambda>sd. py_get sd ''logisticsInfo'' (JArr []))) py_iter of
        Inl e \<Rightarrow> False
      | Inr logistics_info \<Rightarrow> (\<forall>item \<in> set logistics_info. py_contains ''listPrice'' item = Inr False))"

text \<open>
  The answers a state has received: every request of the trace with the outcome the
  server gave it, the \<open>n\<close>-th request being answered at time \<open>n\<close>.
\<close>

fun answers :: "world \<Rightarrow> nat \<Rightarrow> event list \<Rightarrow> (request \<times> outcome) list" where
  "answers w n [] = []"
| "answers w n (Request r # evs) = (r, server w n r) # answers w (Suc n) evs"
| "answers w n (e # evs) = answers w n evs"

definition received :: "world \<Rightarrow> state \<Rightarrow> (request \<times> outcome) list" where
  "received w st = answers w 0 (trace st)"

text \<open>
  The figure of a detail body that the list price is read from, before the division by
  100, in the spec's words: the list price of the first logistics entry that has one;
  if there is none, what the shipping value is read from, which is the
  \<^verbatim>\<open>shippingValue\<close> field if it is present and not \<^verbatim>\<open>null\<close>, else the value of the
  first entry of \<^verbatim>\<open>totals\<close> whose id is \<^verbatim>\<open>'Shipping'\<close>, else 0.
\<close>

fun totals_figure :: "json list \<Rightarrow> exn + json" where
  "totals_figure [] = Inr (JNum 0)"
| "totals_figure (entry # rest) =
     (case py_get entry ''id'' JNull of
        Inl e \<Rightarrow> Inl e
      | Inr i \<Rightarrow>
          if i = JStr ''Shipping'' then py_get entry ''value'' (JNum 0)
          else totals_figure rest)"

fun logistics_figure :: "json list \<Rightarrow> json \<Rightarrow> exn + json" where
  "logistics_figure [] shipping_figure = Inr shipping_figure"
| "logistics_figure (item # rest) shipping_figure =
     (case py_contains ''listPrice'' item of
        Inl e \<Rightarrow> Inl e
      | Inr found \<Rightarrow>
          if found then py_getitem item ''listPrice''
          else logistics_figure rest shipping_figure)"

definition list_price_figure :: "json \<Rightarrow> exn + json" where
  "list_price_figure data =
     bind (py_get data ''shippingValue'' JNull) (\<lambda>raw.
     bind (if raw \<noteq> JNull then Inr raw
           else bind (bind (py_get data ''totals'' (JArr [])) py_iter) totals_figure)
       (\<lambda>shipping_figure.
     bind (bind (bind (py_get data ''shippingData'' (JObj []))
                  (\<lambda>sd. py_get sd ''logisticsInfo'' (JArr []))) py_iter)
       (\<lambda>logistics_info. logistics_figure logistics_info shipping_figure)))"

text \<open>That figure is no negative number.\<close>

definition figure_nonneg :: "json \<Rightarrow> bool" where
  "figure_nonneg data =
     (case bind (list_price_figure data) py_number of Inl e \<Rightarrow> True | Inr r \<Rightarrow> 0 \<le> r)"



text \<open>
  A state is later than another when further parts of the pipeline lead from the one to
  the other: the rest of a page, more pages of a status, more statuses.
\<close>

inductive later :: "world \<Rightarrow> string list \<Rightarrow> state \<Rightarrow> state \<Rightarrow> bool" for w statuses where
  now: "later w statuses st st"
| records: "later w statuses st st1 \<Longrightarrow> orders_loop w statuses os st1 = (r, st2) \<Longrightarrow>
     later w statuses st st2"
| pages: "later w statuses st st1 \<Longrightarrow> paginate fuel w statuses status page st1 = Some st2 \<Longrightarrow>
     later w statuses st st2"
| more_statuses: "later w statuses st st1 \<Longrightarrow> for_statuses fuel w statuses ss st1 = Some st2 \<Longrightarrow>
     later w statuses st st2"

text \<open>
  The percentage in exact arithmetic, the floor of \<open>n / t * 100\<close>. The small servers
  below are given it as their \<open>percent\<close>: at every pair of counters at which their
  runs emit (1 of 1, 1 of 2, 2 of 2, 2 of 4, 3 of 5, 4 of 5) the doubles give the
  same value, 100, 50, 100, 50, 60 and 80.
\<close>

definition exact_percent :: "nat \<Rightarrow> rat \<Rightarrow> int" where
  "exact_percent n t = \<lfloor>(of_nat n / t) * 100\<rfloor>"

subsection \<open>An example run\<close>

text \<open>
  A server with two invoiced orders \<open>A\<close> and \<open>B\<close> and a cancelled one on the only page
  of \<^verbatim>\<open>invoiced\<close>, and on the only page of \<^verbatim>\<open>ready-for-handling\<close> the order \<open>A\<close>
  again, an order \<open>C\<close> and twice a record with no \<^verbatim>\<open>orderId\<close>. The detail lookup of
  \<open>B\<close> is always answered 429 and the lookup with no identifier always fails.
\<close>

definition order_a :: json where
  "order_a = JObj [(''orderId'', JStr ''A''), (''status'', JStr ''invoiced'')]"
definition order_b :: json where
  "order_b = JObj [(''orderId'', JStr ''B''), (''status'', JStr ''invoiced'')]"
definition order_c :: json where
  "order_c = JObj [(''orderId'', JStr ''C''), (''status'', JStr ''ready-for-handling'')]"
definition order_x :: json where
  "order_x = JObj [(''orderId'', JStr ''X''), (''status'', JStr ''canceled'')]"
definition order_n :: json where
  "order_n = JObj [(''status'', JStr ''ready-for-handling'')]"

definition listing_body :: "rat \<Rightarrow> json list \<Rightarrow> json" where
  "listing_body t os = JObj [(''list'', JArr os), (''paging'', JObj [(''total'', JNum t)])]"

definition detail_a :: json where
  "detail_a = JObj [(''shippingValue'', JNum 1500),
     (''shippingData'', JObj [(''logisticsInfo'', JArr [JObj [(''listPrice'', JNum 2000)]])])]"

definition detail_c :: json where
  "detail_c = JObj [(''totals'', JArr [JObj [(''id'', JStr ''Items''), (''value'', JNum 100)],
     JObj [(''id'', JStr ''Shipping''), (''value'', JNum 990)]])]"

fun demo_server :: "nat \<Rightarrow> request \<Rightarrow> outcome" where
  "demo_server n (Listing s p) =
     (if s = ''invoiced'' \<and> p = 1 then Response 200 (listing_body 2 [order_a, order_x, order_b])
      else if s = ''ready-for-handling'' \<and> p = 1 then
        Response 200 (listing_body 3 [order_a, order_n, order_c, order_n])
      else Raises)"
| "demo_server n (Detail i) =
     (if i = JStr ''A'' then Response 200 detail_a
      else if i = JStr ''B'' then Response 429 JNull
      else if i = JStr ''C'' then Response 200 detail_c
      else Raises)"

definition demo_world :: world where
  "demo_world = \<lparr>server = demo_server, percent = exact_percent\<rparr>"

definition demo_config :: "(string \<times> string) list" where
  "demo_config = [(''vtex_account'', ''acme''), (''app_key'', ''k''), (''app_token'', ''t'')]"

definition demo_orders :: "json list" where
  "demo_orders = [enrich order_a 15 20, enrich order_b 0 0, enrich order_n 0 0,
     enrich order_c (99 / 10) (99 / 10)]"

definition demo_final :: state where
  "demo_final = \<lparr>orders = demo_orders,
     order_ids = {JStr ''C'', JNull, JStr ''B'', JStr ''A''},
     total_expected = 5, orders_fetched = 4,
     response = Some (200, listing_body 3 [order_a, order_n, order_c, order_n]),
     clock = 10,
     trace = [Request (Listing ''invoiced'' 1),
       Request (Detail (JStr ''A'')), Progress 50,
       Request (Detail (JStr ''B'')), Sleep 1,
       Request (Detail (JStr ''B'')), Sleep 2,
       Request (Detail (JStr ''B'')), Sleep 4, Progress 100,
       Request (Listing ''ready-for-handling'' 1),
       Request (Detail JNull), Sleep 1, Request (Detail JNull), Sleep 2,
       Request (Detail JNull), Progress 60,
       Request (Detail (JStr ''C'')), Progress 80,
       Finished demo_orders]\<rparr>"

text \<open>
  A server whose listing answers have a \<^verbatim>\<open>paging\<close> field and no \<^verbatim>\<open>list\<close> field, and
  the state the example run is in after it asked that server for a second page.
\<close>

definition broken_body :: json where
  "broken_body = JObj [(''paging'', JObj [(''total'', JNum 150)])]"

definition broken_world :: world where
  "broken_world = \<lparr>server = (\<lambda>n r. Response 200 broken_body), percent = exact_percent\<rparr>"

definition broken_state :: state where
  "broken_state = demo_final\<lparr>response := Some (200, broken_body), clock := 11,
     trace := trace demo_final @ [Request (Listing ''invoiced'' 2)]\<rparr>"

text \<open>What a run that returned ended with, read off its final state.\<close>

definition outcome_of :: "(state \<Rightarrow> 'a) \<Rightarrow> (exn + state) option \<Rightarrow> 'a option" where
  "outcome_of f res = (case res of Some (Inr fin) \<Rightarrow> Some (f fin) | _ \<Rightarrow> None)"

text \<open>The listing requests of a trace: status and page, in the order they were made.\<close>

fun listing_requests :: "event list \<Rightarrow> (string \<times> nat) list" where
  "listing_requests [] = []"
| "listing_requests (Request (Listing s p) # evs) = (s, p) # listing_requests evs"
| "listing_requests (e # evs) = listing_requests evs"

subsection \<open>Servers with full pages\<close>

text \<open>
  Invoiced orders numbered from 0, and a server that answers the listing request for
  page \<open>p\<close> with \<open>pages p\<close> and every detail lookup with an empty object, for any
  percentage \<open>pct\<close>.
\<close>

definition numbered_order :: "nat \<Rightarrow> json" where
  "numbered_order i = JObj [(''orderId'', JNum (of_nat i)), (''status'', JStr ''invoiced'')]"

fun paged_server :: "(nat \<Rightarrow> outcome) \<Rightarrow> nat \<Rightarrow> request \<Rightarrow> outcome" where
  "paged_server pages n (Listing s p) = pages p"
| "paged_server pages n (Detail i) = Response 200 (JObj [])"

definition paged_world :: "(nat \<Rightarrow> outcome) \<Rightarrow> (nat \<Rightarrow> rat \<Rightarrow> int) \<Rightarrow> world" where
  "paged_world pages pct = \<lparr>server = paged_server pages, percent = pct\<rparr>"

text \<open>150 invoiced orders, 100 on page 1 and 50 on page 2; both pages report the total 150.\<close>

definition two_pages :: "nat \<Rightarrow> outcome" where
  "two_pages p =
     (if p = 1 then Response 200 (listing_body 150 (map numbered_order [0..<100]))
      else Response 200 (listing_body 150 (map numbered_order [100..<150])))"

text \<open>
  100 invoiced orders on page 1; every request for page 2 ends in an exception of
  \<^verbatim>\<open>requests.get\<close>; page 3 is empty.
\<close>

definition second_page_down :: "nat \<Rightarrow> outcome" where
  "second_page_down p =
     (if p = 1 then Response 200 (listing_body 100 (map numbered_order [0..<100]))
      else if p = 2 then Raises
      else Response 200 (listing_body 100 []))"

subsection \<open>Two small servers\<close>



text \<open>One invoiced order whose detail answer reports a shipping value of -500.\<close>

fun refund_server :: "nat \<Rightarrow> request \<Rightarrow> outcome" where
  "refund_server n (Listing s p) = Response 200 (listing_body 1 [order_a])"
| "refund_server n (Detail i) = Response 200 (JObj [(''shippingValue'', JNum (- 500))])"

definition refund_world :: world where
  "refund_world = \<lparr>server = refund_server, percent = exact_percent\<rparr>"

text \<open>
  Two invoiced orders \<open>A\<close> and \<open>B\<close>; the detail answer for \<open>A\<close> is a 200 whose
  \<^verbatim>\<open>shippingData\<close> is \<^verbatim>\<open>null\<close>, the one for \<open>B\<close> an empty object.
\<close>

fun null_server :: "nat \<Rightarrow> request \<Rightarrow> outcome" where
  "null_server n (Listing s p) = Response 200 (listing_body 2 [order_a, order_b])"
| "null_server n (Detail i) =
     (if i = JStr ''A'' then Response 200 (JObj [(''shippingData'', JNull)])
      else Response 200 (JObj []))"

definition null_world :: world where
  "null_world = \<lparr>server = null_server, percent = exact_percent\<rparr>"

subsection \<open>Invariants\<close>

text \<open>The collected orders have pairwise different members of the seen-id set, all in the set.\<close>

definition keys_inv :: "state \<Rightarrow> bool" where
  "keys_inv st \<longleftrightarrow>
     distinct (map order_key (orders st)) \<and>
     (\<forall>order \<in> set (orders st). \<exists>k \<in> order_ids st. order_key order = Inr k)"

text \<open>The collected orders have a status of the run.\<close>

definition status_inv :: "string list \<Rightarrow> state \<Rightarrow> bool" where
  "status_inv statuses st \<longleftrightarrow>
     (\<forall>order \<in> set (orders st). \<exists>s \<in> set statuses.
        py_get order ''status'' (JStr ''unknown'') = Inr (JStr s))"


text \<open>
  The clock counts the requests of the trace. The two shipping fields of a collected
  order are 100 times the figures of its lookup, and these are 0 and 0 or what
  \<^verbatim>\<open>shipping_of\<close> reads from an answer that the run received to the detail request
  for the order's identifier and did not retry.
\<close>

definition ship_inv :: "world \<Rightarrow> state \<Rightarrow> bool" where
  "ship_inv w st \<longleftrightarrow>
     clock st = length (received w st) \<and>
     (\<forall>order \<in> set (orders st). \<exists>sv slp.
        field_num order ''shippingValue'' = Some (sv * 100) \<and>
        field_num order ''shippingListPrice'' = Some (slp * 100) \<and>
        ((sv, slp) = (0, 0) \<or>
         (\<exists>oid code data. py_get order ''orderId'' JNull = Inr oid \<and>
            (Detail oid, Response code data) \<in> set (received w st) \<and>
            \<not> retried (Response code data) \<and> shipping_of data = Inr (sv, slp))))"

section \<open>Properties\<close>

subsection \<open>The servers of the examples\<close>

lemma server_demo_world [simp]: "server demo_world = demo_server"
  by (simp add: demo_world_def)

lemma percent_demo_world [simp]: "percent demo_world = exact_percent"
  by (simp add: demo_world_def)

lemma server_paged_world [simp]: "server (paged_world pages pct) = paged_server pages"
  by (simp add: paged_world_def)



subsection \<open>A rule for invariants of a run\<close>

lemma update_key_other: "k' \<noteq> k \<Longrightarrow> map_of (update_key k v kvs) k' = map_of kvs k'"
  by (induction kvs) auto

lemma update_key_same: "map_of (update_key k v kvs) k = Some v"
  by (induction kvs) auto

lemma py_get_setitem_other: "k' \<noteq> k \<Longrightarrow> py_get (py_setitem j k v) k' d = py_get j k' d"
  by (cases j) (simp_all add: update_key_other)

lemma py_get_setitem_same: "py_get (py_setitem (JObj kvs) k v) k d = Inr v"
  by (simp add: update_key_same)

lemma details_loop_frame:
  "details_loop w oid attempts st = (r, st') \<Longrightarrow>
     orders st' = orders st \<and> order_ids st' = order_ids st \<and>
     total_expected st' = total_expected st \<and> orders_fetched st' = orders_fetched st \<and>
     response st' = response st"
  by (induction attempts arbitrary: st)
     (auto simp: http_get_def sleep_def record_event_def split: outcome.splits if_splits)

lemma details_loop_preserved:
  assumes "preserved w statuses I" and "I st"
  shows "I (snd (details_loop w oid attempts st))"
  using assms(2)
proof (induction attempts arbitrary: st)
  case Nil
  then show ?case by simp
next
  case (Cons a rest)
  from assms(1) have g: "\<And>r st. I st \<Longrightarrow> I (snd (http_get w r st))"
    and s: "\<And>n st. I st \<Longrightarrow> I (sleep n st)"
    by (auto simp: preserved_def)
  obtain out st1 where h: "http_get w (Detail oid) st = (out, st1)"
    by (cases "http_get w (Detail oid) st")
  with g [OF Cons.prems, of "Detail oid"] have 1: "I st1" by simp
  show ?case
    using h 1 s [OF 1] Cons.IH [OF s [OF 1]]
    by (cases out) auto
qed

lemma request_loop_preserved:
  assumes "preserved w statuses I" and "I st"
  shows "I (request_loop w status page attempts st)"
  using assms(2)
proof (induction attempts arbitrary: st)
  case Nil
  then show ?case by simp
next
  case (Cons a rest)
  from assms(1) have g: "\<And>r st. I st \<Longrightarrow> I (snd (http_get w r st))"
    and s: "\<And>n st. I st \<Longrightarrow> I (sleep n st)"
    and r: "\<And>x st. I st \<Longrightarrow> I (st\<lparr>response := x\<rparr>)"
    by (auto simp: preserved_def)
  obtain out st1 where h: "http_get w (Listing status page) st = (out, st1)"
    by (cases "http_get w (Listing status page) st")
  with g [OF Cons.prems, of "Listing status page"] have 1: "I st1" by simp
  show ?case
  proof (cases out)
    case Raises
    then show ?thesis using h 1 Cons.IH [OF s [OF 1]] by simp
  next
    case (Response code data)
    have 2: "I (st1\<lparr>response := Some (code, data)\<rparr>)" using r [OF 1] .
    have ih: "\<And>n. I (request_loop w status page rest (sleep n (st1\<lparr>response := Some (code, data)\<rparr>)))"
      using Cons.IH [OF s [OF 2]] .
    show ?thesis using h Response 2 ih by (auto simp: Let_def)
  qed
qed

lemma process_order_preserved:
  assumes "preserved w statuses I" and "I st"
  shows "I (snd (process_order w statuses order st))"
proof -
  have a: "\<And>order order_id k sv slp st0 st. I st0 \<Longrightarrow> I st \<Longrightarrow>
        admitted statuses order order_id k st \<Longrightarrow>
        fetch_order_details w order_id st0 = (Inr (sv, slp), st) \<Longrightarrow>
        I (add_order w order k sv slp st)"
    using assms(1) unfolding preserved_def by blast
  show ?thesis
  proof (cases "\<exists>oid k. admitted statuses order oid k st")
    case False
    then show ?thesis
      using assms(2)
      by (auto simp: process_order_def admitted_def split: sum.splits prod.splits)
  next
    case True
    then obtain oid k where ad: "admitted statuses order oid k st" by blast
    obtain r st1 where f: "fetch_order_details w oid st = (r, st1)"
      by (cases "fetch_order_details w oid st")
    have 1: "I st1"
      using details_loop_preserved [OF assms, of oid "[0..<max_retries]"] f
      by (simp add: fetch_order_details_def)
    have ids: "order_ids st1 = order_ids st"
      using f details_loop_frame by (simp add: fetch_order_details_def)
    have ad1: "admitted statuses order oid k st1"
      using ad ids by (simp add: admitted_def)
    show ?thesis
    proof (cases r)
      case (Inl e)
      then show ?thesis using ad f 1
        by (auto simp: process_order_def admitted_def)
    next
      case (Inr p)
      obtain sv slp where p: "p = (sv, slp)" by (cases p)
      have "I (add_order w order k sv slp st1)"
        using a [OF assms(2) 1 ad1] f Inr p by simp
      then show ?thesis using ad f Inr p
        by (auto simp: process_order_def admitted_def)
    qed
  qed
qed

lemma orders_loop_preserved:
  assumes "preserved w statuses I" and "I st"
  shows "I (snd (orders_loop w statuses os st))"
  using assms(2)
proof (induction os arbitrary: st)
  case Nil
  then show ?case by simp
next
  case (Cons order rest)
  obtain r st1 where h: "process_order w statuses order st = (r, st1)"
    by (cases "process_order w statuses order st")
  have 1: "I st1" using process_order_preserved [OF assms(1) Cons.prems, of order] h by simp
  show ?case using h 1 Cons.IH [OF 1] by (cases r) auto
qed

lemma page_body_preserved:
  assumes "preserved w statuses I" and "I st"
  shows "I (snd (page_body w statuses data st))"
proof -
  have t: "\<And>t. I (add_total t st)"
    using assms unfolding preserved_def by blast
  have o: "\<And>os t r st'. orders_loop w statuses os (add_total t st) = (r, st') \<Longrightarrow> I st'"
    using orders_loop_preserved [OF assms(1) t] by (metis snd_conv)
  show ?thesis
    using assms(2) t o
    by (auto simp: page_body_def split: sum.splits prod.splits)
qed

lemma paginate_preserved:
  assumes "preserved w statuses I" and "I st" and "paginate fuel w statuses status page st = Some st'"
  shows "I st'"
  using assms(2,3)
proof (induction fuel arbitrary: st page)
  case 0
  then show ?case by simp
next
  case (Suc fuel)
  let ?st1 = "request_loop w status page [0..<max_retries] st"
  have 1: "I ?st1" using request_loop_preserved [OF assms(1) Suc.prems(1)] .
  show ?case
  proof (cases "response ?st1")
    case None
    then show ?thesis using Suc.prems(2) 1 by simp
  next
    case (Some cd)
    obtain code data where cd: "cd = (code, data)" by (cases cd)
    obtain r st2 where b: "page_body w statuses data ?st1 = (r, st2)"
      by (cases "page_body w statuses data ?st1")
    have 2: "I st2" using page_body_preserved [OF assms(1) 1, of data] b by simp
    show ?thesis
      using Suc.prems(2) Some cd b 1 2 Suc.IH [OF 2]
      by (auto simp: Let_def split: if_splits sum.splits bool.splits)
  qed
qed

lemma for_statuses_preserved:
  assumes "preserved w statuses I" and "I st" and "for_statuses fuel w statuses ss st = Some st'"
  shows "I st'"
  using assms(2,3)
proof (induction ss arbitrary: st)
  case Nil
  then show ?case by simp
next
  case (Cons status rest)
  from Cons.prems(2) obtain st1 where p: "paginate fuel w statuses status 1 st = Some st1"
    and f: "for_statuses fuel w statuses rest st1 = Some st'"
    by (auto split: option.splits)
  have "I st1" using paginate_preserved [OF assms(1) Cons.prems(1) p] .
  then show ?case using Cons.IH f by blast
qed

lemma order_key_enrich: "order_key (enrich order sv slp) = order_key order"
  by (simp add: order_key_def enrich_def py_get_setitem_other)

lemma status_enrich:
  "py_get (enrich order sv slp) ''status'' d = py_get order ''status'' d"
  by (simp add: enrich_def py_get_setitem_other)

lemma orders_add_order [simp]:
  "orders (add_order w order k sv slp st) = orders st @ [enrich order sv slp]"
  by (simp add: add_order_def emit_progress_def record_event_def)

lemma order_ids_add_order [simp]:
  "order_ids (add_order w order k sv slp st) = insert k (order_ids st)"
  by (simp add: add_order_def emit_progress_def record_event_def)

lemma admitted_key: "admitted statuses order oid k st \<Longrightarrow> order_key order = Inr k"
  by (simp add: admitted_def order_key_def bind_def)

lemma preserved_frame:
  assumes "\<And>st x. I (st\<lparr>response := x\<rparr>) = I st"
    and "\<And>st x. I (st\<lparr>clock := x\<rparr>) = I st"
    and "\<And>st x. I (st\<lparr>trace := x\<rparr>) = I st"
    and "\<And>st x. I (st\<lparr>total_expected := x\<rparr>) = I st"
    and "\<And>order oid k sv slp st0 st. I st \<Longrightarrow> admitted statuses order oid k st \<Longrightarrow>
        fetch_order_details w oid st0 = (Inr (sv, slp), st) \<Longrightarrow> I (add_order w order k sv slp st)"
  shows "preserved w statuses I"
  unfolding preserved_def
  using assms by (auto simp: http_get_def sleep_def record_event_def add_total_def)

lemma preserved_keys_inv: "preserved w statuses keys_inv"
proof (rule preserved_frame)
  fix order oid k sv slp st0 st
  assume i: "keys_inv st" and a: "admitted statuses order oid k st"
  have k: "order_key order = Inr k" using a by (rule admitted_key)
  have n: "k \<notin> order_ids st" using a by (simp add: admitted_def)
  have "Inr k \<notin> set (map order_key (orders st))"
    using i n by (auto simp: keys_inv_def)
  then show "keys_inv (add_order w order k sv slp st)"
    using i k by (auto simp: keys_inv_def order_key_enrich)
qed (simp_all add: keys_inv_def)

lemma preserved_status_inv: "preserved w statuses (status_inv statuses)"
  by (rule preserved_frame) (auto simp: status_inv_def status_enrich admitted_def)

lemma preserved_no_finished: "preserved w statuses (\<lambda>st. \<forall>os. Finished os \<notin> set (trace st))"
  by (auto simp: preserved_def http_get_def sleep_def record_event_def add_total_def
      add_order_def emit_progress_def)

lemma run_finished:
  assumes "run fuel w config status_filter = Some (Inr fin)"
    and "Finished os \<in> set (trace fin)"
  obtains statuses st where "status_map status_filter = Some statuses"
    and "for_statuses fuel w statuses statuses initial = Some st"
    and "os = orders st"
proof -
  have nf: "\<forall>os. Finished os \<notin> set (trace initial)" by (simp add: initial_def)
  from assms(2) have c: "config \<noteq> []"
    using assms(1) by (auto simp: run_def record_event_def initial_def split: if_splits)
  from assms(1) c obtain statuses st where sm: "status_map status_filter = Some statuses"
    and fs: "for_statuses fuel w statuses statuses initial = Some st"
    and fin: "fin = record_event (Finished (orders st)) st"
    by (auto simp: run_def split: if_splits option.splits)
  have "\<forall>os. Finished os \<notin> set (trace st)"
    using for_statuses_preserved [OF preserved_no_finished nf fs] .
  then have "os = orders st" using assms(2) fin by (auto simp: record_event_def)
  then show ?thesis using that sm fs by blast
qed

lemma run_keys_inv:
  assumes "run fuel w config status_filter = Some (Inr fin)"
    and "Finished os \<in> set (trace fin)"
  shows "distinct (map order_key os)" and "\<forall>order \<in> set os. \<exists>k. order_key order = Inr k"
proof -
  from assms obtain statuses st where fs: "for_statuses fuel w statuses statuses initial = Some st"
    and os: "os = orders st"
    by (rule run_finished)
  have "keys_inv initial" by (simp add: keys_inv_def initial_def)
  then have "keys_inv st" using for_statuses_preserved [OF preserved_keys_inv _ fs] by blast
  then show "distinct (map order_key os)" and "\<forall>order \<in> set os. \<exists>k. order_key order = Inr k"
    using os by (auto simp: keys_inv_def)
qed

lemma seen_order_skipped:
  assumes "order_key order = Inr k" and "k \<in> order_ids st"
  shows "process_order w statuses order st = (Inr (), st)"
proof -
  from assms(1) obtain kvs where o: "order = JObj kvs"
    by (cases order) (simp_all add: order_key_def bind_def)
  show ?thesis
    using assms unfolding o
    by (auto simp: process_order_def order_key_def bind_def split: option.splits sum.splits)
qed

subsection \<open>The example run\<close>

lemma demo_run: "run 2 demo_world demo_config ''Todos'' = Some (Inr demo_final)"
  by code_simp

lemma demo_finished: "Finished demo_orders \<in> set (trace demo_final)"
  by (simp add: demo_final_def)

subsection \<open>The collected orders\<close>

text \<open>
  C1. In the collection that a run emits with its \<^verbatim>\<open>finished\<close> signal, the members of
  the seen-id set that the orders are looked up as are pairwise different, so every
  \<^verbatim>\<open>orderId\<close> occurs once, however many pages and statuses listed it; and a record whose
  member is in the seen-id set already leaves the state as it is: it is not appended.
\<close>

theorem order_id_unique_in_result:
  assumes "run fuel w config status_filter = Some (Inr fin)"
    and "Finished os \<in> set (trace fin)"
  shows "distinct (map order_key os) \<and>
         (\<forall>order \<in> set os. \<exists>k. order_key order = Inr k) \<and>
         (\<forall>statuses order k st. order_key order = Inr k \<and> k \<in> order_ids st \<longrightarrow>
            process_order w statuses order st = (Inr (), st))"
  using run_keys_inv [OF assms] seen_order_skipped by blast

text \<open>The example run satisfies the hypotheses; its order \<open>A\<close> is listed twice and kept once.\<close>

theorem order_id_unique_in_result_witness:
  "run 2 demo_world demo_config ''Todos'' = Some (Inr demo_final) \<and>
   Finished demo_orders \<in> set (trace demo_final) \<and>
   distinct (map order_key demo_orders) \<and>
   order_key order_a = Inr (JStr ''A'') \<and> JStr ''A'' \<in> order_ids demo_final \<and>
   process_order demo_world [''invoiced''] order_a demo_final = (Inr (), demo_final)"
proof -
  have k: "order_key order_a = Inr (JStr ''A'') \<and> JStr ''A'' \<in> order_ids demo_final"
    by code_simp
  from order_id_unique_in_result [OF demo_run demo_finished] k
  have "distinct (map order_key demo_orders)"
    and "process_order demo_world [''invoiced''] order_a demo_final = (Inr (), demo_final)"
    by blast+
  with demo_run demo_finished k show ?thesis by simp
qed

lemma foreign_status_skipped:
  assumes "\<forall>s \<in> set statuses. py_get (JObj kvs) ''status'' (JStr ''unknown'') \<noteq> Inr (JStr s)"
  shows "process_order w statuses (JObj kvs) st = (Inr (), st)"
  using assms
  by (auto simp: process_order_def split: option.splits)

text \<open>
  C2. Every order of the emitted collection has a \<^verbatim>\<open>status\<close> field that is one of the
  statuses \<^verbatim>\<open>status_map\<close> gives for the requested filter, and a record whose status is
  none of them is skipped: the state stays as it is.
\<close>

theorem status_in_requested_set:
  assumes "run fuel w config status_filter = Some (Inr fin)"
    and "Finished os \<in> set (trace fin)"
  shows "\<exists>statuses. status_map status_filter = Some statuses \<and>
         (\<forall>order \<in> set os. \<exists>s \<in> set statuses. py_getitem order ''status'' = Inr (JStr s)) \<and>
         (\<forall>kvs st. (\<forall>s \<in> set statuses.
              py_get (JObj kvs) ''status'' (JStr ''unknown'') \<noteq> Inr (JStr s)) \<longrightarrow>
            process_order w statuses (JObj kvs) st = (Inr (), st))"
proof -
  from assms obtain statuses st where sm: "status_map status_filter = Some statuses"
    and fs: "for_statuses fuel w statuses statuses initial = Some st"
    and os: "os = orders st"
    by (rule run_finished)
  have "status_inv statuses initial" by (simp add: status_inv_def initial_def)
  then have i: "status_inv statuses st"
    using for_statuses_preserved [OF preserved_status_inv _ fs] by blast
  have u: "''unknown'' \<notin> set statuses"
    using sm by (auto simp: status_map_def split: if_splits)
  have "\<exists>s \<in> set statuses. py_getitem order ''status'' = Inr (JStr s)"
    if "order \<in> set os" for order
  proof -
    from i that os obtain s where s: "s \<in> set statuses"
      and g: "py_get order ''status'' (JStr ''unknown'') = Inr (JStr s)"
      by (auto simp: status_inv_def)
    from g obtain kvs where o: "order = JObj kvs" by (cases order) simp_all
    from g s u have "py_getitem order ''status'' = Inr (JStr s)"
      unfolding o by (auto split: option.splits)
    with s show ?thesis by blast
  qed
  then show ?thesis using sm foreign_status_skipped by blast
qed

text \<open>In the example run the cancelled record of the first page is skipped.\<close>

theorem status_in_requested_set_witness:
  "run 2 demo_world demo_config ''Todos'' = Some (Inr demo_final) \<and>
   Finished demo_orders \<in> set (trace demo_final) \<and>
   status_map ''Todos'' = Some [''invoiced'', ''ready-for-handling''] \<and>
   list_all (\<lambda>order. py_getitem order ''status'' \<in> {Inr (JStr ''invoiced''), Inr (JStr ''ready-for-handling'')})
     demo_orders \<and>
   process_order demo_world [''invoiced'', ''ready-for-handling''] order_x initial = (Inr (), initial)"
proof -
  have m: "status_map ''Todos'' = Some [''invoiced'', ''ready-for-handling'']"
    by code_simp
  have x: "\<forall>s \<in> set [''invoiced'', ''ready-for-handling''].
      py_get order_x ''status'' (JStr ''unknown'') \<noteq> Inr (JStr s)"
    by code_simp
  from status_in_requested_set [OF demo_run demo_finished] m
  have a: "\<forall>order \<in> set demo_orders. \<exists>s \<in> set [''invoiced'', ''ready-for-handling''].
        py_getitem order ''status'' = Inr (JStr s)"
    and b: "\<forall>kvs st. (\<forall>s \<in> set [''invoiced'', ''ready-for-handling''].
              py_get (JObj kvs) ''status'' (JStr ''unknown'') \<noteq> Inr (JStr s)) \<longrightarrow>
            process_order demo_world [''invoiced'', ''ready-for-handling''] (JObj kvs) st = (Inr (), st)"
    by auto
  from b x have "process_order demo_world [''invoiced'', ''ready-for-handling''] order_x initial = (Inr (), initial)"
    unfolding order_x_def by blast
  moreover from a have "list_all (\<lambda>order. py_getitem order ''status'' \<in> {Inr (JStr ''invoiced''), Inr (JStr ''ready-for-handling'')})
     demo_orders"
    by (auto simp: list_all_iff)
  ultimately show ?thesis using demo_run demo_finished m by simp
qed

lemma filter_le_one:
  assumes "distinct (map f xs)" and "\<forall>x \<in> set xs. P x \<longrightarrow> f x = c"
  shows "length (filter P xs) \<le> 1"
  using assms
proof (induction xs)
  case Nil
  then show ?case by simp
next
  case (Cons x xs)
  show ?case
  proof (cases "P x")
    case False
    then show ?thesis using Cons by simp
  next
    case True
    then have "f x = c" using Cons.prems(2) by simp
    moreover have "f x \<notin> f ` set xs" using Cons.prems(1) by simp
    ultimately have "\<forall>y \<in> set xs. \<not> P y"
      using Cons.prems(2) by (metis image_eqI list.set_intros(2))
    then have "filter P xs = []" by (simp add: filter_empty_conv)
    then show ?thesis by simp
  qed
qed

lemma details_loop_trace:
  "details_loop w oid attempts st = (r, st') \<Longrightarrow> prefix (trace st) (trace st')"
proof (induction attempts arbitrary: st)
  case Nil
  then show ?case by simp
next
  case (Cons a rest)
  have p: "prefix (trace st) (trace (sleep n (snd (http_get w (Detail oid) st))))" for n
    by (simp add: http_get_def sleep_def record_event_def)
  show ?case
    using Cons.prems Cons.IH p
    by (auto simp: http_get_def sleep_def record_event_def
        split: outcome.splits if_splits dest!: Cons.IH dest: append_prefixD)
qed

subsection \<open>Orders are only ever added\<close>

lemma preserved_prefix: "preserved w statuses (\<lambda>st. prefix os (orders st))"
  by (rule preserved_frame) simp_all

lemma later_orders: "later w statuses st st' \<Longrightarrow> prefix (orders st) (orders st')"
proof (induction rule: later.induct)
  case (now st)
  show ?case by simp
next
  case (records st st1 os r st2)
  then show ?case
    using orders_loop_preserved [OF preserved_prefix, of "orders st" st1 w statuses os] by simp
next
  case (pages st st1 fuel status page st2)
  then show ?case using paginate_preserved [OF preserved_prefix] by blast
next
  case (more_statuses st st1 fuel ss st2)
  then show ?case using for_statuses_preserved [OF preserved_prefix] by blast
qed

lemma later_keeps: "later w statuses st st' \<Longrightarrow> order \<in> set (orders st) \<Longrightarrow> order \<in> set (orders st')"
  using later_orders set_mono_prefix by blast

lemma request_loop_frame:
  "orders (request_loop w status page attempts st) = orders st \<and>
   order_ids (request_loop w status page attempts st) = order_ids st \<and>
   total_expected (request_loop w status page attempts st) = total_expected st \<and>
   orders_fetched (request_loop w status page attempts st) = orders_fetched st"
  by (induction attempts arbitrary: st)
     (auto simp: http_get_def sleep_def record_event_def Let_def split: outcome.splits)

lemma page_body_lacking:
  assumes "lacks_paging_or_list data"
  shows "\<exists>r. page_body w statuses data st = (r, st) \<and> r \<noteq> Inr True"
proof (cases data)
  case (JObj kvs)
  then show ?thesis using assms by (auto simp: page_body_def)
next
  case (JArr xs)
  then show ?thesis by (auto simp: page_body_def bind_def)
next
  case (JStr s)
  then show ?thesis by (auto simp: page_body_def bind_def)
qed (simp_all add: page_body_def)

lemma details_loop_retried:
  assumes "\<forall>i < length attempts. retried (server w (clock st + i) (Detail oid))"
  shows "\<exists>st'. details_loop w oid attempts st = (Inr (0, 0), st')"
  using assms
proof (induction attempts arbitrary: st)
  case Nil
  then show ?case by simp
next
  case (Cons a rest)
  have c: "clock (sleep n (snd (http_get w (Detail oid) st))) = Suc (clock st)" for n
    by (simp add: http_get_def sleep_def record_event_def)
  have "\<forall>i < length rest. retried (server w (clock (sleep n (snd (http_get w (Detail oid) st))) + i) (Detail oid))" for n
    using Cons.prems c by auto
  then have ih: "\<exists>st'. details_loop w oid rest (sleep n (snd (http_get w (Detail oid) st))) = (Inr (0, 0), st')" for n
    using Cons.IH by blast
  have 0: "retried (server w (clock st) (Detail oid))" using Cons.prems by auto
  show ?case
  proof (cases "server w (clock st) (Detail oid)")
    case Raises
    then show ?thesis using ih [of "2 ^ a"] by (auto simp: http_get_def)
  next
    case (Response code data)
    then show ?thesis using 0 ih [of "2 ^ a"] by (auto simp: http_get_def)
  qed
qed

lemma field_num_enrich:
  "field_num (enrich (JObj kvs) sv slp) ''shippingValue'' = Some (sv * 100) \<and>
   field_num (enrich (JObj kvs) sv slp) ''shippingListPrice'' = Some (slp * 100)"
  by (simp add: field_num_def enrich_def update_key_same update_key_other)

lemma lacks_order_id_key: "lacks_order_id order \<Longrightarrow> order_key order = Inr JNull"
  by (cases order) (simp_all add: order_key_def bind_def)

lemma process_order_trace:
  assumes "process_order w statuses order st = (r, st')"
  shows "prefix (trace st) (trace st')"
proof -
  have "prefix (trace st) (trace (add_order w order k sv slp st1))"
    if "fetch_order_details w oid st = (x, st1)" for oid x st1 k sv slp
  proof -
    have "prefix (trace st) (trace st1)"
      using that details_loop_trace by (simp add: fetch_order_details_def)
    moreover have "prefix (trace st1) (trace (add_order w order k sv slp st1))"
      by (simp add: add_order_def emit_progress_def record_event_def)
    ultimately show ?thesis by (rule prefix_order.trans)
  qed
  moreover have "prefix (trace st) (trace st1)"
    if "fetch_order_details w oid st = (x, st1)" for oid x st1
    using that details_loop_trace by (simp add: fetch_order_details_def)
  ultimately show ?thesis
    using assms
    by (auto simp: process_order_def split: sum.splits if_splits prod.splits)
qed

subsection \<open>Failures that end a status or zero an order\<close>

text \<open>
  C5. When the body held by \<^verbatim>\<open>response\<close> after the attempts at a page has no
  \<^verbatim>\<open>paging\<close> field or no \<^verbatim>\<open>list\<close> field, the pagination of the status ends with the
  state those attempts left: no record is processed, nothing is added to
  \<^verbatim>\<open>total_expected\<close>, no further page is requested, and the run goes on with the next
  status. The orders collected before remain: they are a prefix of the orders of every
  later state.
\<close>

theorem malformed_page_ends_status:
  assumes "request_loop w status page [0..<max_retries] st = st1"
    and "response st1 = Some (code, data)"
    and "lacks_paging_or_list data"
  shows "paginate (Suc fuel) w statuses status page st = Some st1 \<and>
         orders st1 = orders st \<and> total_expected st1 = total_expected st \<and>
         (page = 1 \<longrightarrow> for_statuses (Suc fuel) w statuses (status # rest) st =
            for_statuses (Suc fuel) w statuses rest st1) \<and>
         (\<forall>fin. later w statuses st1 fin \<longrightarrow> prefix (orders st) (orders fin))"
proof -
  obtain r where b: "page_body w statuses data st1 = (r, st1)" and r: "r \<noteq> Inr True"
    using page_body_lacking [OF assms(3)] by blast
  have p: "paginate (Suc fuel) w statuses status page st = Some st1"
    using assms(1,2) b r by (auto simp: Let_def split: sum.splits bool.splits)
  have o: "orders st1 = orders st" and t: "total_expected st1 = total_expected st"
    using assms(1) request_loop_frame by metis+
  have fs: "for_statuses (Suc fuel) w statuses (status # rest) st =
      for_statuses (Suc fuel) w statuses rest st1" if "page = 1"
    using p that by (simp del: paginate.simps)
  have "prefix (orders st) (orders fin)" if "later w statuses st1 fin" for fin
    using later_orders [OF that] o by simp
  then show ?thesis using p o t fs by blast
qed


text \<open>With the example run's final state as the orders collected so far, its four orders remain.\<close>

theorem malformed_page_ends_status_witness:
  "request_loop broken_world ''invoiced'' 2 [0..<max_retries] demo_final = broken_state \<and>
   response broken_state = Some (200, broken_body) \<and>
   lacks_paging_or_list broken_body \<and>
   paginate (Suc 0) broken_world [''invoiced''] ''invoiced'' 2 demo_final = Some broken_state \<and>
   orders broken_state = demo_orders \<and>
   prefix (orders demo_final) (orders broken_state)"
proof -
  have r: "request_loop broken_world ''invoiced'' 2 [0..<max_retries] demo_final = broken_state"
    by code_simp
  have b: "response broken_state = Some (200, broken_body)"
    by (simp add: broken_state_def)
  have l: "lacks_paging_or_list broken_body"
    by code_simp
  have o: "orders demo_final = demo_orders"
    by (simp add: demo_final_def)
  from malformed_page_ends_status [OF r b l, of 0 "[''invoiced'']" "[]"]
  have "paginate (Suc 0) broken_world [''invoiced''] ''invoiced'' 2 demo_final = Some broken_state"
    and "orders broken_state = orders demo_final"
    and "later broken_world [''invoiced''] broken_state broken_state \<longrightarrow>
         prefix (orders demo_final) (orders broken_state)"
    by blast+
  with r b l o show ?thesis by (simp add: later.now)
qed

text \<open>
  C4 as stated does not hold in its last clause: a lookup can fail without exhausting
  its attempts, and the order is then dropped. Line 43 catches a
  \<^verbatim>\<open>RequestException\<close> only. Below, the detail answer for \<open>A\<close> is a 200 whose
  \<^verbatim>\<open>shippingData\<close> is \<^verbatim>\<open>null\<close>: line 34 raises \<^verbatim>\<open>AttributeError\<close> out of the lookup,
  line 152 catches it, and the run emits neither \<open>A\<close> nor the order \<open>B\<close> listed after
  it, whose own lookup would have succeeded.
\<close>

theorem lookup_exception_drops_order:
  "admitted [''invoiced''] order_a (JStr ''A'') (JStr ''A'') initial \<and>
   fst (fetch_order_details null_world (JStr ''A'') initial) = Inl AttributeError \<and>
   outcome_of orders (run 1 null_world demo_config ''Faturado'') = Some []"
  by code_simp

text \<open>
  C4, amended. When each of the three attempts of a detail lookup ends in an exception
  of \<^verbatim>\<open>requests.get\<close>, a 429 or an error status, the lookup returns 0 and 0, the order
  is appended with both shipping fields 0, and it is in the orders of every later
  state: an order is never dropped because its lookup exhausted its attempts.
\<close>

theorem exhausted_lookup_keeps_order:
  assumes "admitted statuses order oid k st"
    and "\<forall>i < max_retries. retried (server w (clock st + i) (Detail oid))"
  shows "\<exists>st1 st'. fetch_order_details w oid st = (Inr (0, 0), st1) \<and>
           process_order w statuses order st = (Inr (), st') \<and>
           orders st' = orders st @ [enrich order 0 0] \<and>
           field_num (enrich order 0 0) ''shippingValue'' = Some 0 \<and>
           field_num (enrich order 0 0) ''shippingListPrice'' = Some 0 \<and>
           (\<forall>fin. later w statuses st' fin \<longrightarrow> enrich order 0 0 \<in> set (orders fin))"
proof -
  obtain st1 where f: "fetch_order_details w oid st = (Inr (0, 0), st1)"
    using details_loop_retried [of "[0..<max_retries]" w st oid] assms(2)
    by (auto simp: fetch_order_details_def)
  have o1: "orders st1 = orders st"
    using f details_loop_frame by (simp add: fetch_order_details_def)
  let ?st' = "add_order w order k 0 0 st1"
  have p: "process_order w statuses order st = (Inr (), ?st')"
    using assms(1) f by (auto simp: process_order_def admitted_def)
  have o: "orders ?st' = orders st @ [enrich order 0 0]" using o1 by simp
  from assms(1) obtain kvs where j: "order = JObj kvs"
    by (cases order) (simp_all add: admitted_def)
  have z: "field_num (enrich order 0 0) ''shippingValue'' = Some 0 \<and>
           field_num (enrich order 0 0) ''shippingListPrice'' = Some 0"
    using field_num_enrich [of kvs 0 0] j by simp
  have "enrich order 0 0 \<in> set (orders fin)" if "later w statuses ?st' fin" for fin
    using later_keeps [OF that] o by simp
  then show ?thesis using f p o z by blast
qed


text \<open>The order \<open>B\<close> of the example, whose lookup is answered 429 three times.\<close>

theorem exhausted_lookup_keeps_order_witness:
  "admitted [''invoiced''] order_b (JStr ''B'') (JStr ''B'') initial \<and>
   retried (server demo_world 0 (Detail (JStr ''B''))) \<and>
   retried (server demo_world 1 (Detail (JStr ''B''))) \<and>
   retried (server demo_world 2 (Detail (JStr ''B''))) \<and>
   fst (fetch_order_details demo_world (JStr ''B'') initial) = Inr (0, 0) \<and>
   orders (snd (process_order demo_world [''invoiced''] order_b initial)) = [enrich order_b 0 0] \<and>
   field_num (enrich order_b 0 0) ''shippingListPrice'' = Some 0"
proof -
  have a: "admitted [''invoiced''] order_b (JStr ''B'') (JStr ''B'') initial"
    by (simp add: admitted_def order_b_def initial_def)
  have r: "retried (server demo_world n (Detail (JStr ''B'')))" for n
    by simp
  then have h: "\<forall>i < max_retries. retried (server demo_world (clock initial + i) (Detail (JStr ''B'')))"
    by blast
  have i: "orders initial = []" by (simp add: initial_def)
  from exhausted_lookup_keeps_order [where w = demo_world and st = initial and oid = "JStr ''B''"
      and k = "JStr ''B''" and order = order_b and statuses = "[''invoiced'']"] a h i
  have "fst (fetch_order_details demo_world (JStr ''B'') initial) = Inr (0, 0)"
    and "orders (snd (process_order demo_world [''invoiced''] order_b initial)) = [enrich order_b 0 0]"
    and "field_num (enrich order_b 0 0) ''shippingListPrice'' = Some 0"
    by auto
  with a r show ?thesis by blast
qed

text \<open>
  C10. The emitted collection has at most one record with no \<^verbatim>\<open>orderId\<close> field: such
  a record is looked up in the seen-id set as \<^verbatim>\<open>None\<close>. When \<^verbatim>\<open>None\<close> is not in the set
  yet and the status of the record is one of the run's, the record is admitted like any
  other, and the next request is the detail lookup with the identifier \<^verbatim>\<open>None\<close>.
\<close>

theorem record_without_order_id:
  assumes "run fuel w config status_filter = Some (Inr fin)"
    and "Finished os \<in> set (trace fin)"
  shows "length (filter lacks_order_id os) \<le> 1 \<and>
         (\<forall>statuses order st.
            lacks_order_id order \<and> JNull \<notin> order_ids st \<and>
            (\<exists>s \<in> set statuses. py_get order ''status'' (JStr ''unknown'') = Inr (JStr s)) \<longrightarrow>
            admitted statuses order JNull JNull st \<and>
            process_order w statuses order st =
              (case fetch_order_details w JNull st of
                 (Inl e, st1) \<Rightarrow> (Inl e, st1)
               | (Inr (sv, slp), st1) \<Rightarrow> (Inr (), add_order w order JNull sv slp st1)) \<and>
            prefix (trace st @ [Request (Detail JNull)]) (trace (snd (process_order w statuses order st))))"
proof -
  have "distinct (map order_key os)" using run_keys_inv(1) [OF assms] .
  then have one: "length (filter lacks_order_id os) \<le> 1"
    using filter_le_one [of order_key os lacks_order_id "Inr JNull"] lacks_order_id_key by blast
  have step: "admitted statuses order JNull JNull st \<and>
            process_order w statuses order st =
              (case fetch_order_details w JNull st of
                 (Inl e, st1) \<Rightarrow> (Inl e, st1)
               | (Inr (sv, slp), st1) \<Rightarrow> (Inr (), add_order w order JNull sv slp st1)) \<and>
            prefix (trace st @ [Request (Detail JNull)]) (trace (snd (process_order w statuses order st)))"
    if l: "lacks_order_id order" and n: "JNull \<notin> order_ids st"
      and s: "\<exists>s \<in> set statuses. py_get order ''status'' (JStr ''unknown'') = Inr (JStr s)"
    for statuses order st
  proof -
    from l obtain kvs where j: "order = JObj kvs" and m: "map_of kvs ''orderId'' = None"
      by (cases order) simp_all
    have a: "admitted statuses order JNull JNull st"
      using j m n s by (simp add: admitted_def)
    have p: "process_order w statuses order st =
              (case fetch_order_details w JNull st of
                 (Inl e, st1) \<Rightarrow> (Inl e, st1)
               | (Inr (sv, slp), st1) \<Rightarrow> (Inr (), add_order w order JNull sv slp st1))"
      using j m n s by (auto simp: process_order_def split: prod.splits sum.splits)
    obtain x st1 where f: "fetch_order_details w JNull st = (x, st1)"
      by (cases "fetch_order_details w JNull st")
    let ?st0 = "snd (http_get w (Detail JNull) st)"
    have t0: "trace ?st0 = trace st @ [Request (Detail JNull)]"
      by (simp add: http_get_def record_event_def)
    have "prefix (trace ?st0) (trace st1)"
      using f details_loop_trace [of w JNull "[Suc 0, 2]"] 
      by (auto simp: fetch_order_details_def max_retries_def upt_rec http_get_def sleep_def record_event_def
          split: outcome.splits if_splits dest: append_prefixD)
    moreover have "prefix (trace st1) (trace (snd (process_order w statuses order st)))"
      using p f by (auto simp: add_order_def emit_progress_def record_event_def split: sum.splits)
    ultimately have "prefix (trace st @ [Request (Detail JNull)]) (trace (snd (process_order w statuses order st)))"
      using t0 prefix_order.trans by metis
    with a p show ?thesis by simp
  qed
  show ?thesis using one step by blast
qed


text \<open>The example run lists a record with no \<^verbatim>\<open>orderId\<close> twice and keeps one.\<close>

theorem record_without_order_id_witness:
  "run 2 demo_world demo_config ''Todos'' = Some (Inr demo_final) \<and>
   Finished demo_orders \<in> set (trace demo_final) \<and>
   length (filter lacks_order_id demo_orders) \<le> 1 \<and>
   lacks_order_id order_n \<and> JNull \<notin> order_ids initial \<and>
   py_get order_n ''status'' (JStr ''unknown'') = Inr (JStr ''ready-for-handling'') \<and>
   admitted [''ready-for-handling''] order_n JNull JNull initial \<and>
   prefix (trace initial @ [Request (Detail JNull)])
     (trace (snd (process_order demo_world [''ready-for-handling''] order_n initial)))"
proof -
  have l: "lacks_order_id order_n" by code_simp
  have n: "JNull \<notin> order_ids initial" by (simp add: initial_def)
  have s: "py_get order_n ''status'' (JStr ''unknown'') = Inr (JStr ''ready-for-handling'')"
    by code_simp
  from record_without_order_id [OF demo_run demo_finished]
  have one: "length (filter lacks_order_id demo_orders) \<le> 1"
    and step: "\<And>statuses order st.
            lacks_order_id order \<and> JNull \<notin> order_ids st \<and>
            (\<exists>s \<in> set statuses. py_get order ''status'' (JStr ''unknown'') = Inr (JStr s)) \<Longrightarrow>
            admitted statuses order JNull JNull st \<and>
            prefix (trace st @ [Request (Detail JNull)]) (trace (snd (process_order demo_world statuses order st)))"
    by blast+
  from step [of order_n initial "[''ready-for-handling'']"] l n s
  have "admitted [''ready-for-handling''] order_n JNull JNull initial \<and>
     prefix (trace initial @ [Request (Detail JNull)])
       (trace (snd (process_order demo_world [''ready-for-handling''] order_n initial)))"
    by simp
  with demo_run demo_finished one l n s show ?thesis by blast
qed

subsection \<open>Runs over full pages\<close>

lemma listing_requests_append:
  "listing_requests (xs @ ys) = listing_requests xs @ listing_requests ys"
  by (induction xs rule: listing_requests.induct) simp_all

lemma details_loop_listing:
  "details_loop w oid attempts st = (r, st') \<Longrightarrow>
     listing_requests (trace st') = listing_requests (trace st)"
  by (induction attempts arbitrary: st)
     (auto simp: http_get_def sleep_def record_event_def listing_requests_append
       split: outcome.splits if_splits)

lemma process_order_frame:
  assumes "process_order w statuses order st = (r, st')"
  shows "total_expected st' = total_expected st \<and> response st' = response st \<and>
         listing_requests (trace st') = listing_requests (trace st)"
proof -
  have "total_expected (add_order w order k sv slp st1) = total_expected st \<and>
        response (add_order w order k sv slp st1) = response st \<and>
        listing_requests (trace (add_order w order k sv slp st1)) = listing_requests (trace st)"
    if "fetch_order_details w oid st = (x, st1)" for oid x st1 k sv slp
    using that details_loop_frame [of w oid "[0..<max_retries]" st x st1]
      details_loop_listing [of w oid "[0..<max_retries]" st x st1]
    by (simp add: fetch_order_details_def add_order_def emit_progress_def record_event_def
        listing_requests_append)
  moreover have "total_expected st1 = total_expected st \<and> response st1 = response st \<and>
        listing_requests (trace st1) = listing_requests (trace st)"
    if "fetch_order_details w oid st = (x, st1)" for oid x st1
    using that details_loop_frame [of w oid "[0..<max_retries]" st x st1]
      details_loop_listing [of w oid "[0..<max_retries]" st x st1]
    by (simp add: fetch_order_details_def)
  ultimately show ?thesis
    using assms
    by (auto simp: process_order_def split: sum.splits if_splits prod.splits)
qed

lemma orders_loop_frame:
  "orders_loop w statuses os st = (r, st') \<Longrightarrow>
     total_expected st' = total_expected st \<and> response st' = response st \<and>
     listing_requests (trace st') = listing_requests (trace st)"
proof (induction os arbitrary: st)
  case Nil
  then show ?case by simp
next
  case (Cons order rest)
  obtain x st1 where p: "process_order w statuses order st = (x, st1)"
    by (cases "process_order w statuses order st")
  show ?case
    using Cons.prems p process_order_frame [OF p] Cons.IH [of st1]
    by (cases x) auto
qed

lemma paged_world_process_order:
  "\<exists>st'. process_order (paged_world pages pct) [''invoiced''] (numbered_order i) st = (Inr (), st')"
  by (auto simp: process_order_def numbered_order_def fetch_order_details_def max_retries_def
      upt_rec http_get_def raise_for_status_def shipping_of_def bind_def)

lemma paged_world_orders_loop:
  "\<exists>st'. orders_loop (paged_world pages pct) [''invoiced''] (map numbered_order ns) st = (Inr (), st')"
proof (induction ns arbitrary: st)
  case Nil
  show ?case by simp
next
  case (Cons i ns)
  obtain st1 where "process_order (paged_world pages pct) [''invoiced''] (numbered_order i) st = (Inr (), st1)"
    using paged_world_process_order by blast
  then show ?case using Cons.IH [of st1] by simp
qed

lemma paged_world_page_body:
  "\<exists>st'. page_body (paged_world pages pct) [''invoiced''] (listing_body t (map numbered_order ns)) st =
       (Inr (\<not> (ns = [] \<or> length ns < per_page)), st') \<and>
     total_expected st' = total_expected st + t \<and> response st' = response st \<and>
     listing_requests (trace st') = listing_requests (trace st)"
proof -
  obtain st' where o: "orders_loop (paged_world pages pct) [''invoiced''] (map numbered_order ns) (add_total t st) = (Inr (), st')"
    using paged_world_orders_loop by blast
  have "total_expected st' = total_expected st + t \<and> response st' = response st \<and>
     listing_requests (trace st') = listing_requests (trace st)"
    using orders_loop_frame [OF o] by (simp add: add_total_def)
  moreover have "page_body (paged_world pages pct) [''invoiced''] (listing_body t (map numbered_order ns)) st =
       (Inr (\<not> (ns = [] \<or> length ns < per_page)), st')"
    using o by (simp add: page_body_def listing_body_def bind_def)
  ultimately show ?thesis by blast
qed


lemma paged_world_page:
  assumes "pages p = Response 200 (listing_body t (map numbered_order ns))"
  shows "\<exists>st'. paginate (Suc fuel) (paged_world pages pct) [''invoiced''] s p st =
           (if ns = [] \<or> length ns < per_page then Some st'
            else paginate fuel (paged_world pages pct) [''invoiced''] s (Suc p) st') \<and>
         total_expected st' = total_expected st + t \<and>
         response st' = Some (200, listing_body t (map numbered_order ns)) \<and>
         listing_requests (trace st') = listing_requests (trace st) @ [(s, p)]"
proof -
  let ?w = "paged_world pages pct"
  let ?body = "listing_body t (map numbered_order ns)"
  let ?st1 = "request_loop ?w s p [0..<max_retries] st"
  have r: "?st1 = (snd (http_get ?w (Listing s p) st))\<lparr>response := Some (200, ?body)\<rparr>"
    using assms by (simp add: max_retries_def upt_rec http_get_def raise_for_status_def)
  then have r1: "response ?st1 = Some (200, ?body)"
    and t1: "total_expected ?st1 = total_expected st"
    and l1: "listing_requests (trace ?st1) = listing_requests (trace st) @ [(s, p)]"
    by (simp_all add: http_get_def record_event_def listing_requests_append)
  obtain st' where b: "page_body ?w [''invoiced''] ?body ?st1 =
       (Inr (\<not> (ns = [] \<or> length ns < per_page)), st')"
    and f: "total_expected st' = total_expected ?st1 + t" "response st' = response ?st1"
      "listing_requests (trace st') = listing_requests (trace ?st1)"
    using paged_world_page_body [of pages pct t ns ?st1] by blast
  have "paginate (Suc fuel) ?w [''invoiced''] s p st =
           (if ns = [] \<or> length ns < per_page then Some st'
            else paginate fuel ?w [''invoiced''] s (Suc p) st')"
    using r1 b by (simp add: Let_def)
  then show ?thesis using f r1 t1 l1 by auto
qed

lemma paged_world_stale:
  assumes "pages p = Raises"
    and "response st = Some (200, listing_body t (map numbered_order ns))"
  shows "\<exists>st'. paginate (Suc fuel) (paged_world pages pct) [''invoiced''] s p st =
           (if ns = [] \<or> length ns < per_page then Some st'
            else paginate fuel (paged_world pages pct) [''invoiced''] s (Suc p) st') \<and>
         total_expected st' = total_expected st + t \<and>
         response st' = response st \<and>
         listing_requests (trace st') = listing_requests (trace st) @ [(s, p), (s, p), (s, p)]"
proof -
  let ?w = "paged_world pages pct"
  let ?body = "listing_body t (map numbered_order ns)"
  let ?st1 = "request_loop ?w s p [0..<max_retries] st"
  have r1: "response ?st1 = Some (200, ?body)"
    and t1: "total_expected ?st1 = total_expected st"
    and l1: "listing_requests (trace ?st1) = listing_requests (trace st) @ [(s, p), (s, p), (s, p)]"
    using assms
    by (simp_all add: max_retries_def upt_rec http_get_def sleep_def record_event_def
        listing_requests_append)
  obtain st' where b: "page_body ?w [''invoiced''] ?body ?st1 =
       (Inr (\<not> (ns = [] \<or> length ns < per_page)), st')"
    and f: "total_expected st' = total_expected ?st1 + t" "response st' = response ?st1"
      "listing_requests (trace st') = listing_requests (trace ?st1)"
    using paged_world_page_body [of pages pct t ns ?st1] by blast
  have "paginate (Suc fuel) ?w [''invoiced''] s p st =
           (if ns = [] \<or> length ns < per_page then Some st'
            else paginate fuel ?w [''invoiced''] s (Suc p) st')"
    using r1 b by (simp add: Let_def)
  then show ?thesis using f r1 t1 l1 assms(2) by auto
qed

lemma run_faturado:
  assumes "for_statuses fuel w [''invoiced''] [''invoiced''] initial = Some st"
  shows "run fuel w demo_config ''Faturado'' = Some (Inr (record_event (Finished (orders st)) st))"
  using assms by (simp add: run_def demo_config_def status_map_def)

text \<open>
  C7. The claim does not hold of the code. Line 130 is inside the \<^verbatim>\<open>while\<close> loop, so the
  reported total of a status is added once for every page that is processed: with 150
  invoiced orders on two pages, \<^verbatim>\<open>total_expected\<close> ends as 300, not 150.
\<close>

theorem total_expected_counts_every_page:
  "outcome_of total_expected (run 2 (paged_world two_pages pct) demo_config ''Faturado'') = Some 300"
proof -
  let ?w = "paged_world two_pages pct"
  obtain st1 where p1: "paginate 2 ?w [''invoiced''] ''invoiced'' 1 initial =
      paginate 1 ?w [''invoiced''] ''invoiced'' 2 st1"
    and t1: "total_expected st1 = 150"
    using paged_world_page [of two_pages 1 150 "[0..<100]" 1 pct "''invoiced''" initial]
    by (auto simp: two_pages_def per_page_def initial_def numeral_2_eq_2)
  obtain st2 where p2: "paginate 1 ?w [''invoiced''] ''invoiced'' 2 st1 = Some st2"
    and t2: "total_expected st2 = 300"
    using paged_world_page [of two_pages 2 150 "[100..<150]" 0 pct "''invoiced''" st1] t1
    by (auto simp: two_pages_def per_page_def)
  have "for_statuses 2 ?w [''invoiced''] [''invoiced''] initial = Some st2"
    using p1 p2 by simp
  from run_faturado [OF this] t2 show ?thesis
    by (simp add: outcome_of_def record_event_def)
qed

text \<open>
  C3. The claim does not hold of the code. When all three attempts at a page end in an
  exception of \<^verbatim>\<open>requests.get\<close>, \<^verbatim>\<open>response\<close> still holds the answer to the page
  before; its status code is 200, so line 122 does not leave the loop: the body of the
  page before is processed once more, its total is added again, and the next page of
  the same status is requested. Here page 3 is requested after page 2 failed three
  times, and \<^verbatim>\<open>total_expected\<close> ends as 300 for a reported total of 100.
\<close>

theorem stale_response_continues_pagination:
  "outcome_of (\<lambda>fin. (listing_requests (trace fin), total_expected fin))
     (run 3 (paged_world second_page_down pct) demo_config ''Faturado'') =
   Some ([(''invoiced'', 1), (''invoiced'', 2), (''invoiced'', 2), (''invoiced'', 2),
          (''invoiced'', 3)], 300)"
proof -
  let ?w = "paged_world second_page_down pct"
  let ?body = "listing_body 100 (map numbered_order [0..<100])"
  obtain st1 where p1: "paginate 3 ?w [''invoiced''] ''invoiced'' 1 initial =
      paginate 2 ?w [''invoiced''] ''invoiced'' 2 st1"
    and t1: "total_expected st1 = 100"
    and r1: "response st1 = Some (200, ?body)"
    and l1: "listing_requests (trace st1) = [(''invoiced'', 1)]"
    using paged_world_page [of second_page_down 1 100 "[0..<100]" 2 pct "''invoiced''" initial]
    by (auto simp: second_page_down_def per_page_def initial_def numeral_3_eq_3 numeral_2_eq_2)
  obtain st2 where p2: "paginate 2 ?w [''invoiced''] ''invoiced'' 2 st1 =
      paginate 1 ?w [''invoiced''] ''invoiced'' 3 st2"
    and t2: "total_expected st2 = 200"
    and l2: "listing_requests (trace st2) =
      [(''invoiced'', 1), (''invoiced'', 2), (''invoiced'', 2), (''invoiced'', 2)]"
    using paged_world_stale [of second_page_down 2 st1 100 "[0..<100]" 1 pct "''invoiced''"] t1 r1 l1
    by (auto simp: second_page_down_def per_page_def numeral_3_eq_3 numeral_2_eq_2)
  obtain st3 where p3: "paginate 1 ?w [''invoiced''] ''invoiced'' 3 st2 = Some st3"
    and t3: "total_expected st3 = 300"
    and l3: "listing_requests (trace st3) =
      [(''invoiced'', 1), (''invoiced'', 2), (''invoiced'', 2), (''invoiced'', 2), (''invoiced'', 3)]"
    using paged_world_page [of second_page_down 3 100 "[]" 0 pct "''invoiced''" st2] t2 l2
    by (auto simp: second_page_down_def per_page_def)
  have "for_statuses 3 ?w [''invoiced''] [''invoiced''] initial = Some st3"
    using p1 p2 p3 by simp
  from run_faturado [OF this] t3 l3 show ?thesis
    by (simp add: outcome_of_def record_event_def listing_requests_append)
qed

subsection \<open>Progress\<close>










subsection \<open>Shipping figures\<close>

lemma totals_loop_figure:
  "totals_loop xs = Inr r \<Longrightarrow> \<exists>f. totals_figure xs = Inr f \<and> py_div100 f = Inr r"
proof (induction xs)
  case Nil
  then show ?case by (simp add: py_div100_def bind_def)
next
  case (Cons x xs)
  then show ?case by (auto simp: bind_def split: sum.splits if_splits)
qed

lemma logistics_loop_figure:
  "logistics_loop xs sv = Inr r \<Longrightarrow> py_div100 sf = Inr sv \<Longrightarrow>
     \<exists>f. logistics_figure xs sf = Inr f \<and> py_div100 f = Inr r"
proof (induction xs)
  case Nil
  then show ?case by simp
next
  case (Cons x xs)
  then show ?case by (auto simp: bind_def split: sum.splits if_splits)
qed

text \<open>The list price that \<^verbatim>\<open>shipping_of\<close> returns is a hundredth of that figure.\<close>

lemma shipping_of_figure:
  assumes "shipping_of data = Inr (sv, slp)"
  shows "\<exists>r. bind (list_price_figure data) py_number = Inr r \<and> slp = r / 100"
proof -
  from assms obtain raw where raw: "py_get data ''shippingValue'' JNull = Inr raw"
    by (auto simp: shipping_of_def bind_def split: sum.splits)
  from assms raw obtain li where
    v: "(if raw \<noteq> JNull then py_div100 raw
         else bind (bind (py_get data ''totals'' (JArr [])) py_iter) totals_loop) = Inr sv"
    and li: "bind (bind (py_get data ''shippingData'' (JObj []))
                  (\<lambda>sd. py_get sd ''logisticsInfo'' (JArr []))) py_iter = Inr li"
    and lp: "logistics_loop li sv = Inr slp"
    by (auto simp: shipping_of_def bind_def split: sum.splits)
  have "\<exists>sf. (if raw \<noteq> JNull then Inr raw
         else bind (bind (py_get data ''totals'' (JArr [])) py_iter) totals_figure) = Inr sf \<and>
       py_div100 sf = Inr sv"
  proof (cases "raw = JNull")
    case False
    then show ?thesis using v by simp
  next
    case True
    with v obtain ts where ts: "bind (py_get data ''totals'' (JArr [])) py_iter = Inr ts"
      and tl: "totals_loop ts = Inr sv"
      by (auto simp: bind_def split: sum.splits)
    from totals_loop_figure [OF tl] ts True show ?thesis by (auto simp: bind_def)
  qed
  then obtain sf where sf: "(if raw \<noteq> JNull then Inr raw
         else bind (bind (py_get data ''totals'' (JArr [])) py_iter) totals_figure) = Inr sf"
    and d: "py_div100 sf = Inr sv"
    by blast
  from logistics_loop_figure [OF lp d] obtain f where f: "logistics_figure li sf = Inr f"
    and df: "py_div100 f = Inr slp"
    by blast
  have "list_price_figure data = Inr f"
    using raw sf li f by (simp add: list_price_figure_def bind_def)
  moreover from df obtain r where "py_number f = Inr r" and "slp = r / 100"
    by (auto simp: py_div100_def bind_def split: sum.splits)
  ultimately show ?thesis by (simp add: bind_def)
qed

lemma shipping_of_figure_nonneg:
  "shipping_of data = Inr (sv, slp) \<Longrightarrow> figure_nonneg data \<Longrightarrow> 0 \<le> slp"
  using shipping_of_figure [of data sv slp] by (auto simp: figure_nonneg_def)

lemma logistics_loop_none:
  "\<forall>item \<in> set xs. py_contains ''listPrice'' item = Inr False \<Longrightarrow> logistics_loop xs sv = Inr sv"
  by (induction xs) simp_all

lemma shipping_of_no_list_price:
  assumes "no_list_price data" and "shipping_of data = Inr (sv, slp)"
  shows "slp = sv"
  using assms
  by (auto simp: no_list_price_def shipping_of_def bind_def logistics_loop_none
      split: sum.splits if_splits)

lemma length_answers: "length (answers w n evs) = length (answers w m evs)"
  by (induction w n evs arbitrary: m rule: answers.induct) auto

lemma answers_append:
  "answers w n (xs @ ys) = answers w n xs @ answers w (n + length (answers w n xs)) ys"
  by (induction w n xs rule: answers.induct) simp_all

lemma received_http_get:
  assumes "clock st = length (received w st)"
  shows "received w (snd (http_get w r st)) = received w st @ [(r, server w (clock st) r)]"
    and "clock (snd (http_get w r st)) = length (received w (snd (http_get w r st)))"
proof -
  show 1: "received w (snd (http_get w r st)) = received w st @ [(r, server w (clock st) r)]"
    using assms by (simp add: received_def http_get_def record_event_def answers_append)
  show "clock (snd (http_get w r st)) = length (received w (snd (http_get w r st)))"
    unfolding 1 using assms by (simp add: http_get_def record_event_def)
qed

lemma received_sleep [simp]: "received w (sleep n st) = received w st"
  by (simp add: received_def sleep_def record_event_def answers_append)

lemma clock_sleep [simp]: "clock (sleep n st) = clock st"
  by (simp add: sleep_def record_event_def)

lemma received_add_order [simp]: "received w (add_order w order k sv slp st) = received w st"
  by (simp add: received_def add_order_def emit_progress_def record_event_def answers_append)

lemma clock_add_order [simp]: "clock (add_order w order k sv slp st) = clock st"
  by (simp add: add_order_def emit_progress_def record_event_def)

text \<open>
  What a lookup returns is 0 and 0 or read from an answer it received and did not
  retry; the answers received before it are kept.
\<close>

lemma details_loop_received:
  assumes "details_loop w oid attempts st = (res, st')"
    and "clock st = length (received w st)"
  shows "clock st' = length (received w st') \<and>
         set (received w st) \<subseteq> set (received w st') \<and>
         (\<forall>sv slp. res = Inr (sv, slp) \<longrightarrow> (sv, slp) = (0, 0) \<or>
            (\<exists>code data. (Detail oid, Response code data) \<in> set (received w st') \<and>
               \<not> retried (Response code data) \<and> shipping_of data = Inr (sv, slp)))"
  using assms
proof (induction attempts arbitrary: st)
  case Nil
  then show ?case by auto
next
  case (Cons a rest)
  define st1 where "st1 = snd (http_get w (Detail oid) st)"
  have h: "http_get w (Detail oid) st = (server w (clock st) (Detail oid), st1)"
    by (simp add: st1_def http_get_def)
  have r1: "received w st1 = received w st @ [(Detail oid, server w (clock st) (Detail oid))]"
    and c1: "clock st1 = length (received w st1)"
    using received_http_get [OF Cons.prems(2)] unfolding st1_def by blast+
  have sub: "set (received w st) \<subseteq> set (received w st1)" using r1 by auto
  have again: ?case
    if "details_loop w oid rest (sleep (2 ^ a) st1) = (res, st')"
  proof -
    have "clock (sleep (2 ^ a) st1) = length (received w (sleep (2 ^ a) st1))"
      using c1 by simp
    from Cons.IH [OF that this] sub show ?thesis by auto
  qed
  have stop: ?case if "res = Inr (0, 0)" and "st' = st1"
    using that c1 sub by auto
  show ?case
  proof (cases "server w (clock st) (Detail oid)")
    case Raises
    with Cons.prems(1) h have
      "(if a = max_retries - 1 then (Inr (0, 0), st1)
        else details_loop w oid rest (sleep (2 ^ a) st1)) = (res, st')"
      by simp
    then show ?thesis using again stop by (auto split: if_splits)
  next
    case (Response code data)
    have m: "(Detail oid, Response code data) \<in> set (received w st1)"
      using r1 Response by simp
    from Cons.prems(1) h Response have e:
      "(if code = 429 then details_loop w oid rest (sleep (2 ^ a) st1)
        else if raise_for_status code then
          (if a = max_retries - 1 then (Inr (0, 0), st1)
           else details_loop w oid rest (sleep (2 ^ a) st1))
        else (shipping_of data, st1)) = (res, st')"
      by simp
    show ?thesis
    proof (cases "retried (Response code data)")
      case True
      then show ?thesis using e again stop by (auto split: if_splits)
    next
      case False
      then have "res = shipping_of data" and "st' = st1"
        using e by auto
      then show ?thesis using c1 sub m False by auto
    qed
  qed
qed

lemma preserved_ship_inv: "preserved w statuses (ship_inv w)"
  unfolding preserved_def
proof (intro conjI allI impI)
  fix r st
  assume "ship_inv w st"
  then show "ship_inv w (snd (http_get w r st))"
    using received_http_get [of st w r]
    by (fastforce simp: ship_inv_def http_get_def record_event_def)
next
  fix n st
  assume "ship_inv w st"
  moreover have "orders (sleep n st) = orders st"
    by (simp add: sleep_def record_event_def)
  ultimately show "ship_inv w (sleep n st)"
    by (simp add: ship_inv_def)
next
  fix x st
  assume "ship_inv w st"
  then show "ship_inv w (st\<lparr>response := x\<rparr>)"
    by (simp add: ship_inv_def received_def)
next
  fix t st
  assume "ship_inv w st"
  then show "ship_inv w (add_total t st)"
    by (simp add: ship_inv_def received_def add_total_def)
next
  fix order oid k sv slp st0 st
  assume i0: "ship_inv w st0" and i: "ship_inv w st" and a: "admitted statuses order oid k st"
    and f: "fetch_order_details w oid st0 = (Inr (sv, slp), st)"
  from a obtain kvs where j: "order = JObj kvs"
    by (cases order) (simp_all add: admitted_def)
  have n: "field_num (enrich order sv slp) ''shippingValue'' = Some (sv * 100) \<and>
      field_num (enrich order sv slp) ''shippingListPrice'' = Some (slp * 100)"
    unfolding j by (rule field_num_enrich)
  have g: "py_get (enrich order sv slp) ''orderId'' JNull = Inr oid"
    using a by (simp add: enrich_def py_get_setitem_other admitted_def)
  have "(sv, slp) = (0, 0) \<or>
     (\<exists>code data. (Detail oid, Response code data) \<in> set (received w st) \<and>
        \<not> retried (Response code data) \<and> shipping_of data = Inr (sv, slp))"
    using details_loop_received [of w oid "[0..<max_retries]" st0 "Inr (sv, slp)" st] f i0
    by (simp add: fetch_order_details_def ship_inv_def)
  with n g i show "ship_inv w (add_order w order k sv slp st)"
    unfolding ship_inv_def orders_add_order received_add_order clock_add_order
    by (auto 0 3)
qed

lemma received_finished [simp]: "received w (record_event (Finished os) st) = received w st"
  by (simp add: received_def record_event_def answers_append)

lemma answers_server: "(r, out) \<in> set (answers w n evs) \<Longrightarrow> \<exists>m. out = server w m r"
  by (induction w n evs rule: answers.induct) auto

text \<open>
  C6 as stated does not hold: nothing in the derivation clamps the figures. A detail
  answer with a shipping value of -500 and no list price gives the order a list price
  of -500.
\<close>

theorem negative_list_price:
  "outcome_of orders (run 1 refund_world demo_config ''Faturado'') = Some [enrich order_a (- 5) (- 5)] \<and>
   field_num (enrich order_a (- 5) (- 5)) ''shippingListPrice'' = Some (- 500)"
  by code_simp

text \<open>
  C6, amended. Every order of the emitted collection carries both shipping fields. The
  list price is not negative when the figure it is read from is no negative number in
  the answers that the run received to the order's detail request and did not retry:
  that figure is the list price of the first logistics entry that has one, else the
  \<^verbatim>\<open>shippingValue\<close> field, else the \<^verbatim>\<open>Shipping\<close> total. The list price equals the
  shipping value when none of those answers has a logistics entry with a
  \<^verbatim>\<open>listPrice\<close>.
\<close>

theorem shipping_list_price_derivation:
  assumes "run fuel w config status_filter = Some (Inr fin)"
    and "Finished os \<in> set (trace fin)"
  shows "\<forall>order \<in> set os. \<exists>v lp.
           field_num order ''shippingValue'' = Some v \<and>
           field_num order ''shippingListPrice'' = Some lp \<and>
           ((\<forall>oid code data. py_get order ''orderId'' JNull = Inr oid \<and>
                (Detail oid, Response code data) \<in> set (received w fin) \<and>
                \<not> retried (Response code data) \<longrightarrow> figure_nonneg data) \<longrightarrow> 0 \<le> lp) \<and>
           ((\<forall>oid code data. py_get order ''orderId'' JNull = Inr oid \<and>
                (Detail oid, Response code data) \<in> set (received w fin) \<and>
                \<not> retried (Response code data) \<longrightarrow> no_list_price data) \<longrightarrow> lp = v)"
proof
  fix order
  assume o: "order \<in> set os"
  have nf: "\<forall>os. Finished os \<notin> set (trace initial)" by (simp add: initial_def)
  from assms(2) have c: "config \<noteq> []"
    using assms(1) by (auto simp: run_def record_event_def initial_def split: if_splits)
  from assms(1) c obtain statuses st where fs: "for_statuses fuel w statuses statuses initial = Some st"
    and fin: "fin = record_event (Finished (orders st)) st"
    by (auto simp: run_def split: if_splits option.splits)
  have "\<forall>os. Finished os \<notin> set (trace st)"
    using for_statuses_preserved [OF preserved_no_finished nf fs] .
  then have os: "os = orders st" using assms(2) fin by (auto simp: record_event_def)
  have rc: "received w fin = received w st" using fin by simp
  have "ship_inv w initial" by (simp add: ship_inv_def initial_def received_def)
  then have "ship_inv w st" using for_statuses_preserved [OF preserved_ship_inv _ fs] by blast
  with o os rc obtain sv slp where v: "field_num order ''shippingValue'' = Some (sv * 100)"
    and lp: "field_num order ''shippingListPrice'' = Some (slp * 100)"
    and src: "(sv, slp) = (0, 0) \<or>
         (\<exists>oid code data. py_get order ''orderId'' JNull = Inr oid \<and>
            (Detail oid, Response code data) \<in> set (received w fin) \<and>
            \<not> retried (Response code data) \<and> shipping_of data = Inr (sv, slp))"
    unfolding ship_inv_def by force
  have "0 \<le> slp * 100"
    if "\<forall>oid code data. py_get order ''orderId'' JNull = Inr oid \<and>
          (Detail oid, Response code data) \<in> set (received w fin) \<and>
          \<not> retried (Response code data) \<longrightarrow> figure_nonneg data"
    using src that shipping_of_figure_nonneg by fastforce
  moreover have "slp * 100 = sv * 100"
    if "\<forall>oid code data. py_get order ''orderId'' JNull = Inr oid \<and>
          (Detail oid, Response code data) \<in> set (received w fin) \<and>
          \<not> retried (Response code data) \<longrightarrow> no_list_price data"
    using src that shipping_of_no_list_price by fastforce
  ultimately show "\<exists>v lp.
           field_num order ''shippingValue'' = Some v \<and>
           field_num order ''shippingListPrice'' = Some lp \<and>
           ((\<forall>oid code data. py_get order ''orderId'' JNull = Inr oid \<and>
                (Detail oid, Response code data) \<in> set (received w fin) \<and>
                \<not> retried (Response code data) \<longrightarrow> figure_nonneg data) \<longrightarrow> 0 \<le> lp) \<and>
           ((\<forall>oid code data. py_get order ''orderId'' JNull = Inr oid \<and>
                (Detail oid, Response code data) \<in> set (received w fin) \<and>
                \<not> retried (Response code data) \<longrightarrow> no_list_price data) \<longrightarrow> lp = v)"
    using v lp by blast
qed

text \<open>
  The order \<open>C\<close> of the example run: the one answer to its detail request has totals
  only, a \<^verbatim>\<open>Shipping\<close> total of 990 beside an \<^verbatim>\<open>Items\<close> total.
\<close>

theorem shipping_list_price_derivation_witness:
  "run 2 demo_world demo_config ''Todos'' = Some (Inr demo_final) \<and>
   Finished demo_orders \<in> set (trace demo_final) \<and>
   (Detail (JStr ''C''), Response 200 detail_c) \<in> set (received demo_world demo_final) \<and>
   figure_nonneg detail_c \<and> no_list_price detail_c \<and>
   (\<exists>v lp. field_num (enrich order_c (99 / 10) (99 / 10)) ''shippingValue'' = Some v \<and>
      field_num (enrich order_c (99 / 10) (99 / 10)) ''shippingListPrice'' = Some lp \<and>
      0 \<le> lp \<and> lp = v)"
proof -
  let ?c = "enrich order_c (99 / 10) (99 / 10)"
  have c: "figure_nonneg detail_c" and l: "no_list_price detail_c"
    by code_simp+
  have r: "(Detail (JStr ''C''), Response 200 detail_c) \<in> set (received demo_world demo_final)"
    by code_simp
  have g: "py_get ?c ''orderId'' JNull = Inr (JStr ''C'')"
    by code_simp
  have only: "data = detail_c"
    if "(Detail (JStr ''C''), Response code data) \<in> set (received demo_world demo_final)"
    for code data
    using answers_server [OF that [unfolded received_def]] by (auto split: if_splits)
  have nn: "\<forall>oid code data. py_get ?c ''orderId'' JNull = Inr oid \<and>
      (Detail oid, Response code data) \<in> set (received demo_world demo_final) \<and>
      \<not> retried (Response code data) \<longrightarrow> figure_nonneg data"
    using g c only by auto
  have nl: "\<forall>oid code data. py_get ?c ''orderId'' JNull = Inr oid \<and>
      (Detail oid, Response code data) \<in> set (received demo_world demo_final) \<and>
      \<not> retried (Response code data) \<longrightarrow> no_list_price data"
    using g l only by auto
  have m: "?c \<in> set demo_orders"
    by (simp add: demo_orders_def)
  from shipping_list_price_derivation [OF demo_run demo_finished] m nn nl
  have "\<exists>v lp. field_num ?c ''shippingValue'' = Some v \<and>
      field_num ?c ''shippingListPrice'' = Some lp \<and> 0 \<le> lp \<and> lp = v"
    by blast
  with demo_run demo_finished r c l show ?thesis by blast
qed

subsection \<open>The date filter\<close>

text \<open>
  C9. The claim does not hold of the code as pytz behaves. A pytz zone passed as
  \<^verbatim>\<open>tzinfo=\<close> is not localized: it answers the first offset of its zone, which for
  \<^verbatim>\<open>America/Sao_Paulo\<close> is local mean time, 3 hours 6 minutes west of UTC, that is
  -11160 seconds (pytz documents that its zones must be attached with \<^verbatim>\<open>localize\<close>).
  With that offset the filter starts at 03:06:00.000 UTC of the first day and ends at
  03:05:59.999 UTC of the day after the last, six minutes after the bounds of the day
  in the zone's offset of 3 hours (10800 seconds).
\<close>

theorem date_filter_local_mean_time:
  "date_filter (- 11160) d e = ((d * 86400 + 11160, 0), (e * 86400 + 97559, 999)) \<and>
   fst (fst (date_filter (- 11160) d e)) - fst (fst (date_filter (- 10800) d e)) = 360 \<and>
   fst (snd (date_filter (- 11160) d e)) - fst (snd (date_filter (- 10800) d e)) = 360"
  by (simp add: date_filter_def)

end
